theory Spec2Isabelle
  imports Complex_Main
begin

section \<open>Radial sweep-line visibility engine\<close>

text \<open>
  A shallow embedding of the viewshed routines of
  \<^verbatim>\<open>NearshoreWaveFunctions_cython_3p0.pyx\<close>: \<^verbatim>\<open>list_extreme_cell_angles\<close>,
  \<^verbatim>\<open>compute_distances\<close>, \<^verbatim>\<open>update_visible_pixels_fast\<close>, \<^verbatim>\<open>active_pixel_index\<close>,
  \<^verbatim>\<open>_active_pixel_index\<close> and \<^verbatim>\<open>sweep_through_angles\<close>.

  Conventions of the embedding.
  \<^item> A C \<^verbatim>\<open>double\<close> (and a Python float) is the real number it stands for. Where the
    rounding of an operation decides an integer, in the slot index of the active line, the
    operations are those of IEEE binary64 (\<open>d_add\<close>, \<open>d_sub\<close>, \<open>d_mul\<close>, \<open>d_div\<close>: the exact
    result rounded to the nearest double, ties to even, each operation rounded on its
    own). In the angles, the distances and the visibilities, which are only compared and
    stored, the operations are exact: the constant \<^verbatim>\<open>pi\<close> of the source is \<^term>\<open>pi\<close>,
    \<^verbatim>\<open>atan2\<close> is the two-argument arctangent, \<^verbatim>\<open>sqrt\<close> is \<^term>\<open>sqrt\<close>.
  \<^item> A C \<^verbatim>\<open>int\<close>, \<^verbatim>\<open>long\<close> or numpy integer is an \<^typ>\<open>int\<close>; the indices and counters of
    the routines are bounded by array lengths. The cast \<^verbatim>\<open><int>\<close> of a double is \<open>c_int\<close>,
    with the 32-bit range of its result.
  \<^item> A numpy array is a list. An indexed access goes through \<open>py_nth\<close>: it is bounds-checked
    (the \<^verbatim>\<open>boundscheck(False)\<close> directive of the source is commented out), a negative index
    counts from the end and an index out of range raises \<^verbatim>\<open>IndexError\<close>.
  \<^item> An exception is a value \<open>Inl e\<close> of the result type. A \<^verbatim>\<open>def\<close> function passes an
    exception on to its caller; a \<^verbatim>\<open>cdef\<close> function with a C return type and no
    \<^verbatim>\<open>except\<close> clause cannot: the exception is reported and dropped, and the function
    returns 0.
\<close>

subsection \<open>Errors and array accesses\<close>

datatype error = IndexError | ZeroDivisionError | AssertionError

type_synonym 'a result = "error + 'a"

definition rbind :: "'a result \<Rightarrow> ('a \<Rightarrow> 'b result) \<Rightarrow> 'b result" where
  "rbind m f = (case m of Inl e \<Rightarrow> Inl e | Inr x \<Rightarrow> f x)"

definition py_index :: "nat \<Rightarrow> int \<Rightarrow> nat result" where
  "py_index n i =
     (let j = (if i < 0 then i + int n else i)
      in if 0 \<le> j \<and> j < int n then Inr (nat j) else Inl IndexError)"

definition py_nth :: "'a list \<Rightarrow> int \<Rightarrow> 'a result" where
  "py_nth xs i = rbind (py_index (length xs) i) (\<lambda>k. Inr (xs ! k))"

definition py_set :: "'a list \<Rightarrow> int \<Rightarrow> 'a \<Rightarrow> 'a list result" where
  "py_set xs i v = rbind (py_index (length xs) i) (\<lambda>k. Inr (xs[k := v]))"

subsection \<open>Doubles\<close>

text \<open>
  The doubles are the reals \<open>m\<cdot>2\<^sup>e\<close> with \<open>\<bar>m\<bar> < 2\<^sup>5\<^sup>3\<close> and \<open>e \<ge> -1074\<close>. \<open>expo x\<close> is the
  binary exponent of \<open>x\<close>, the \<open>e\<close> with \<open>2\<^sup>e \<le> \<bar>x\<bar> < 2\<^sup>e\<^sup>+\<^sup>1\<close>, computed from the number of
  bits of the integer part of \<open>\<bar>x\<bar>\<close> or of \<open>1/\<bar>x\<bar>\<close>; \<open>ulp x\<close> is the spacing of the doubles
  around \<open>x\<close>, constant below \<open>2\<^sup>-\<^sup>1\<^sup>0\<^sup>2\<^sup>2\<close> (the subnormal numbers); \<open>fl x\<close> is the double nearest
  to \<open>x\<close>, the one with an even significand when two are equally near. Overflow to an
  infinity is not part of the model: it needs a magnitude of \<open>2\<^sup>1\<^sup>0\<^sup>2\<^sup>4\<close>.
\<close>

fun bit_length :: "nat \<Rightarrow> nat" where
  "bit_length n = (if n = 0 then 0 else Suc (bit_length (n div 2)))"

definition expo :: "real \<Rightarrow> int" where
  "expo x = (if 1 \<le> \<bar>x\<bar> then int (bit_length (nat \<lfloor>\<bar>x\<bar>\<rfloor>)) - 1
             else - int (bit_length (nat \<lceil>1 / \<bar>x\<bar>\<rceil> - 1)))"

definition round_half_even :: "real \<Rightarrow> int" where
  "round_half_even m =
     (let f = \<lfloor>m\<rfloor>; r = m - of_int f
      in if r < 1/2 then f else if 1/2 < r then f + 1 else if even f then f else f + 1)"

definition ulp :: "real \<Rightarrow> real" where
  "ulp x = 2 powi (max (expo x) (- 1022) - 52)"

definition fl :: "real \<Rightarrow> real" where
  "fl x = (if x = 0 then 0
           else sgn x * of_int (round_half_even (\<bar>x\<bar> / ulp x)) * ulp x)"

definition d_add :: "real \<Rightarrow> real \<Rightarrow> real" where
  "d_add x y = fl (x + y)"

definition d_sub :: "real \<Rightarrow> real \<Rightarrow> real" where
  "d_sub x y = fl (x - y)"

definition d_mul :: "real \<Rightarrow> real \<Rightarrow> real" where
  "d_mul x y = fl (x * y)"

definition d_div :: "real \<Rightarrow> real \<Rightarrow> real" where
  "d_div x y = fl (x / y)"

text \<open>The conversion of an integer to a double.\<close>

definition d_of_int :: "int \<Rightarrow> real" where
  "d_of_int k = fl (of_int k)"

text \<open>
  The C cast \<^verbatim>\<open><int>\<close> of a double: truncation toward zero. C leaves the cast of a value
  outside the range of \<^verbatim>\<open>int\<close> undefined; the conversion instruction of x86-64 then gives
  the least \<^verbatim>\<open>int\<close>, \<open>-2\<^sup>3\<^sup>1\<close>.
\<close>

definition c_int :: "real \<Rightarrow> int" where
  "c_int x =
     (let t = (if 0 \<le> x then \<lfloor>x\<rfloor> else \<lceil>x\<rceil>)
      in if - 2147483648 \<le> t \<and> t \<le> 2147483647 then t else - 2147483648)"

text \<open>
  Division of two C doubles in a \<^verbatim>\<open>def\<close> function; Cython raises on a zero divisor
  (\<^verbatim>\<open>cdivision\<close> is off).
\<close>

definition c_div :: "real \<Rightarrow> real \<Rightarrow> real result" where
  "c_div x y = (if y = 0 then Inl ZeroDivisionError else Inr (d_div x y))"

subsection \<open>The Active-Line Indexer\<close>

text \<open>
  The term that the slot expression rounds:
  \<^verbatim>\<open><int>(Ss*slope*(Dl-Sl*.5)+.5)\<close>.
\<close>

definition rounded_term :: "real \<Rightarrow> real \<Rightarrow> real \<Rightarrow> real \<Rightarrow> int" where
  "rounded_term Dl Sl Ss slope =
     c_int (d_add (d_mul (d_mul Ss slope) (d_sub Dl (d_mul Sl (1/2)))) (1/2))"

text \<open>
  \<^verbatim>\<open>cdef int active_pixel_index(Ol, Os, Pl, Ps, El, Es, Dl, Ds, Sl, Ss, slope)\<close>:
  \<^verbatim>\<open><int>(Sl*2*Dl+(Ss*Ds-(<int>(Ss*slope*(Dl-Sl*.5)+.5)))) if Ds or Dl else 0\<close>.
  The same expression is written inline at the three places of \<^verbatim>\<open>sweep_through_angles\<close>
  that compute \<^verbatim>\<open>ID\<close>.
\<close>

definition active_pixel_index ::
  "real \<Rightarrow> real \<Rightarrow> real \<Rightarrow> real \<Rightarrow> real \<Rightarrow> real \<Rightarrow> real \<Rightarrow> real \<Rightarrow> real \<Rightarrow> real \<Rightarrow> real \<Rightarrow> int" where
  "active_pixel_index Ol Os Pl Ps El Es Dl Ds Sl Ss slope =
     (if Ds \<noteq> 0 \<or> Dl \<noteq> 0
      then c_int (d_add (d_mul (d_mul Sl 2) Dl)
                    (d_sub (d_mul Ss Ds) (of_int (rounded_term Dl Sl Ss slope))))
      else 0)"

text \<open>
  \<^verbatim>\<open>def _active_pixel_index(O, P, E)\<close>: the Python entry point. The three points are
  converted to floats (\<open>float_point\<close>); component 0 is the row, component 1 the column. The
  locals \<^verbatim>\<open>Ol, Os, El, Es, Dl, Ds, Sl, Ss, slope\<close> of the source are the functions below, of
  the converted points.
\<close>

type_synonym point = "real \<times> real"

definition float_point :: "point \<Rightarrow> point" where
  "float_point X = (fl (fst X), fl (snd X))"

definition long_axis_is_rows :: "point \<Rightarrow> point \<Rightarrow> bool" where
  "long_axis_is_rows O' E = (\<bar>d_sub (fst E) (fst O')\<bar> > \<bar>d_sub (snd E) (snd O')\<bar>)"

definition long_comp :: "point \<Rightarrow> point \<Rightarrow> point \<Rightarrow> real" where
  "long_comp O' E X = (if long_axis_is_rows O' E then fst X else snd X)"

definition short_comp :: "point \<Rightarrow> point \<Rightarrow> point \<Rightarrow> real" where
  "short_comp O' E X = (if long_axis_is_rows O' E then snd X else fst X)"

definition cell_Dl :: "point \<Rightarrow> point \<Rightarrow> point \<Rightarrow> real" where
  "cell_Dl O' P E = d_sub (long_comp O' E P) (long_comp O' E O')"

definition cell_Ds :: "point \<Rightarrow> point \<Rightarrow> point \<Rightarrow> real" where
  "cell_Ds O' P E = d_sub (short_comp O' E P) (short_comp O' E O')"

definition ray_Sl :: "point \<Rightarrow> point \<Rightarrow> real" where
  "ray_Sl O' E = (if long_comp O' E O' > long_comp O' E E then -1 else 1)"

definition ray_Ss :: "point \<Rightarrow> point \<Rightarrow> real" where
  "ray_Ss O' E = (if short_comp O' E O' > short_comp O' E E then -1 else 1)"

definition ray_slope :: "point \<Rightarrow> point \<Rightarrow> real" where
  "ray_slope O' E =
     (if long_comp O' E E = long_comp O' E O' then 0
      else d_div (d_sub (short_comp O' E E) (short_comp O' E O'))
                 (d_sub (long_comp O' E E) (long_comp O' E O')))"

definition py_active_pixel_index :: "point \<Rightarrow> point \<Rightarrow> point \<Rightarrow> int" where
  "py_active_pixel_index O0 P0 E0 =
     (let O' = float_point O0; P = float_point P0; E = float_point E0
      in active_pixel_index (long_comp O' E O') (short_comp O' E O')
           (long_comp O' E P) (short_comp O' E P)
           (long_comp O' E E) (short_comp O' E E)
           (cell_Dl O' P E) (cell_Ds O' P E) (ray_Sl O' E) (ray_Ss O' E) (ray_slope O' E))"

text \<open>
  The slot formula in the words of the specification, in exact arithmetic and with the
  rounding function left open: \<open>ID = Sl\<cdot>2\<cdot>Dl + (Ss\<cdot>Ds - rnd (Ss\<cdot>slope\<cdot>(Dl - Sl\<cdot>0.5)))\<close>, or
  \<open>0\<close> if both \<open>Dl\<close> and \<open>Ds\<close> are zero. \<open>spec_rows\<close> tells whether the long axis is the row
  axis, \<open>spec_term\<close> is the product that is rounded.
\<close>

definition spec_rows :: "point \<Rightarrow> point \<Rightarrow> bool" where
  "spec_rows O' E = (\<bar>fst E - fst O'\<bar> > \<bar>snd E - snd O'\<bar>)"

definition spec_long :: "point \<Rightarrow> point \<Rightarrow> point \<Rightarrow> real" where
  "spec_long O' E X = (if spec_rows O' E then fst X else snd X)"

definition spec_short :: "point \<Rightarrow> point \<Rightarrow> point \<Rightarrow> real" where
  "spec_short O' E X = (if spec_rows O' E then snd X else fst X)"

definition spec_Dl :: "point \<Rightarrow> point \<Rightarrow> point \<Rightarrow> real" where
  "spec_Dl O' P E = spec_long O' E P - spec_long O' E O'"

definition spec_Ds :: "point \<Rightarrow> point \<Rightarrow> point \<Rightarrow> real" where
  "spec_Ds O' P E = spec_short O' E P - spec_short O' E O'"

definition spec_Sl :: "point \<Rightarrow> point \<Rightarrow> real" where
  "spec_Sl O' E = (if spec_long O' E O' > spec_long O' E E then -1 else 1)"

definition spec_Ss :: "point \<Rightarrow> point \<Rightarrow> real" where
  "spec_Ss O' E = (if spec_short O' E O' > spec_short O' E E then -1 else 1)"

definition spec_slope :: "point \<Rightarrow> point \<Rightarrow> real" where
  "spec_slope O' E =
     (if spec_long O' E E = spec_long O' E O' then 0
      else (spec_short O' E E - spec_short O' E O') / (spec_long O' E E - spec_long O' E O'))"

definition spec_term :: "point \<Rightarrow> point \<Rightarrow> point \<Rightarrow> real" where
  "spec_term O' P E = spec_Ss O' E * spec_slope O' E * (spec_Dl O' P E - spec_Sl O' E * (1/2))"

definition spec_slot_index :: "(real \<Rightarrow> int) \<Rightarrow> point \<Rightarrow> point \<Rightarrow> point \<Rightarrow> real" where
  "spec_slot_index rnd O' P E =
     (if spec_Dl O' P E = 0 \<and> spec_Ds O' P E = 0 then 0
      else spec_Sl O' E * 2 * spec_Dl O' P E
           + (spec_Ss O' E * spec_Ds O' P E - of_int (rnd (spec_term O' P E))))"

text \<open>
  The rounded term of \<^verbatim>\<open>_active_pixel_index(O, P, E)\<close>: the inner cast of the slot
  expression, at the arguments of the call.
\<close>

definition truncated_term :: "point \<Rightarrow> point \<Rightarrow> point \<Rightarrow> int" where
  "truncated_term O0 P0 E0 =
     (let O' = float_point O0; P = float_point P0; E = float_point E0
      in rounded_term (cell_Dl O' P E) (ray_Sl O' E) (ray_Ss O' E) (ray_slope O' E))"

text \<open>A point of the grid: integer coordinates, of magnitude at most \<open>2\<^sup>2\<^sup>0\<close>.\<close>

definition grid_point :: "point \<Rightarrow> bool" where
  "grid_point X = (fst X \<in> \<int> \<and> snd X \<in> \<int> \<and> \<bar>fst X\<bar> \<le> 2 ^ 20 \<and> \<bar>snd X\<bar> \<le> 2 ^ 20)"


subsection \<open>The Angle Classifier\<close>

text \<open>The C library's \<^verbatim>\<open>atan2(y, x)\<close> on the reals, with values in \<open>(-\<pi>, \<pi>]\<close>.\<close>

definition atan2 :: "real \<Rightarrow> real \<Rightarrow> real" where
  "atan2 y x =
     (if 0 < x then arctan (y / x)
      else if x < 0 then (if 0 \<le> y then arctan (y / x) + pi else arctan (y / x) - pi)
      else if 0 < y then pi / 2
      else if y < 0 then - (pi / 2)
      else 0)"

text \<open>Python's \<^verbatim>\<open>%\<close> on floats: the result has the sign of the divisor.\<close>

definition float_mod :: "real \<Rightarrow> real \<Rightarrow> real" where
  "float_mod x y = x - y * of_int \<lfloor>x / y\<rfloor>"

definition two_pi :: real where
  "two_pi = 2 * pi"

definition norm_angle :: "real \<Rightarrow> real" where
  "norm_angle a = float_mod (a + two_pi) two_pi"

text \<open>
  The table \<^verbatim>\<open>extreme_cell_points\<close>: for each of the eight sectors the row and column
  offsets of the first corner, then of the last corner, met by the sweep line.
\<close>

definition extreme_cell_points :: "real list" where
  "extreme_cell_points =
     [ 1/2, -(1/2), -(1/2), -(1/2),
       1/2,   1/2,  -(1/2), -(1/2),
       1/2,   1/2,    1/2,  -(1/2),
     -(1/2),  1/2,    1/2,  -(1/2),
     -(1/2),  1/2,    1/2,    1/2,
     -(1/2), -(1/2),  1/2,    1/2,
     -(1/2), -(1/2), -(1/2),  1/2,
       1/2,  -(1/2), -(1/2),  1/2 ]"

record cell_record =
  min_angle :: real
  center_angle :: real
  max_angle :: real
  cell_row :: int
  cell_col :: int

text \<open>
  \<^verbatim>\<open>max_dist_sq = max_dist**2 if max_dist >= 0 else 1000000000\<close>.
\<close>

definition max_dist_sq :: "real \<Rightarrow> real" where
  "max_dist_sq max_dist = (if 0 \<le> max_dist then max_dist\<^sup>2 else 1000000000)"

text \<open>The test of the two \<^verbatim>\<open>continue\<close> statements: the cell is too far, or is the viewpoint.\<close>

definition skip_cell :: "int \<times> int \<Rightarrow> real \<Rightarrow> int \<Rightarrow> int \<Rightarrow> bool" where
  "skip_cell viewpoint_coords max_dist row col =
     (let viewpoint_to_cell_row = row - fst viewpoint_coords;
          viewpoint_to_cell_col = col - snd viewpoint_coords;
          d = viewpoint_to_cell_row\<^sup>2 + viewpoint_to_cell_col\<^sup>2
      in of_int d > max_dist_sq max_dist
         \<or> (row = fst viewpoint_coords \<and> col = snd viewpoint_coords))"

definition cell_sector :: "int \<times> int \<Rightarrow> int \<Rightarrow> int \<Rightarrow> int" where
  "cell_sector viewpoint_coords row col =
     (let viewpoint_to_cell_row = row - fst viewpoint_coords;
          viewpoint_to_cell_col = col - snd viewpoint_coords;
          angle = norm_angle (atan2 (- of_int (row - fst viewpoint_coords))
                                    (of_int (col - snd viewpoint_coords)));
          sector = c_int (4 * angle / two_pi) * 2
      in if \<bar>viewpoint_to_cell_row * viewpoint_to_cell_col\<bar> > 0 then sector + 1 else sector)"

text \<open>The body of the second pair of loops, for a cell that is not skipped.\<close>

definition cell_angles :: "int \<times> int \<Rightarrow> int \<Rightarrow> int \<Rightarrow> cell_record" where
  "cell_angles viewpoint_coords row col =
     (let viewpoint_to_cell_row = row - fst viewpoint_coords;
          viewpoint_to_cell_col = col - snd viewpoint_coords;
          angle = norm_angle (atan2 (- of_int (row - fst viewpoint_coords))
                                    (of_int (col - snd viewpoint_coords)));
          sector = cell_sector viewpoint_coords row col;
          min_point_id = nat (sector * 4);
          max_point_id = min_point_id + 2;
          min_corner_offset_row = extreme_cell_points ! min_point_id;
          min_corner_offset_col = extreme_cell_points ! (min_point_id + 1);
          max_corner_offset_row = extreme_cell_points ! max_point_id;
          max_corner_offset_col = extreme_cell_points ! (max_point_id + 1);
          min_corner_row = of_int viewpoint_to_cell_row + min_corner_offset_row;
          min_corner_col = of_int viewpoint_to_cell_col + min_corner_offset_col;
          max_corner_row = of_int viewpoint_to_cell_row + max_corner_offset_row;
          max_corner_col = of_int viewpoint_to_cell_col + max_corner_offset_col;
          min_angle = atan2 (- min_corner_row) min_corner_col;
          max_angle = atan2 (- max_corner_row) max_corner_col
      in \<lparr> min_angle = norm_angle min_angle, center_angle = angle,
           max_angle = norm_angle max_angle, cell_row = row, cell_col = col \<rparr>)"

text \<open>
  The two nested loops over \<^verbatim>\<open>range(array_rows)\<close> and \<^verbatim>\<open>range(array_cols)\<close>. The first
  pair of loops of the source only counts the cells, with the same two tests, to size the
  arrays that the second pair fills.
\<close>

definition cell_records :: "int \<times> int \<Rightarrow> int \<times> int \<Rightarrow> real \<Rightarrow> cell_record list" where
  "cell_records array_shape viewpoint_coords max_dist =
     concat (map (\<lambda>row.
       concat (map (\<lambda>col.
         if skip_cell viewpoint_coords max_dist row col then []
         else [cell_angles viewpoint_coords row col])
         [0 ..  snd array_shape - 1]))
       [0 .. fst array_shape - 1])"

definition list_extreme_cell_angles ::
  "int \<times> int \<Rightarrow> int \<times> int \<Rightarrow> real
   \<Rightarrow> real list \<times> real list \<times> real list \<times> int list \<times> int list" where
  "list_extreme_cell_angles array_shape viewpoint_coords max_dist =
     (let cells = cell_records array_shape viewpoint_coords max_dist
      in (map min_angle cells, map center_angle cells, map max_angle cells,
          map cell_row cells, map cell_col cells))"

text \<open>
  An angular interval read as an arc: from \<open>lo\<close> counter-clockwise to \<open>hi\<close>, across the
  0/2\<pi> cut when \<open>lo > hi\<close>.
\<close>

definition in_arc :: "real \<Rightarrow> real \<Rightarrow> real \<Rightarrow> bool" where
  "in_arc lo hi a = (if lo \<le> hi then lo \<le> a \<and> a \<le> hi else lo \<le> a \<or> a \<le> hi)"

subsection \<open>Distances\<close>

text \<open>
  \<^verbatim>\<open>compute_distances(vi, vj, cell_size, I, J, distance_sq, distance)\<close> fills the two output
  arrays in place, one entry per entry of \<^verbatim>\<open>I\<close>.
\<close>

definition distance_step ::
  "int \<Rightarrow> int \<Rightarrow> real \<Rightarrow> int list \<Rightarrow> int list \<Rightarrow> int \<Rightarrow> real list \<times> real list
   \<Rightarrow> (real list \<times> real list) result" where
  "distance_step vi vj cell_size I J i out =
     (let cell_size_sq = cell_size * cell_size in
      rbind (py_nth I i) (\<lambda>Ii.
      rbind (py_nth J i) (\<lambda>Ji.
      rbind (py_set (fst out) i (of_int ((vi - Ii)\<^sup>2 + (vj - Ji)\<^sup>2) * cell_size_sq)) (\<lambda>dsq.
      rbind (py_nth dsq i) (\<lambda>x.
      rbind (py_set (snd out) i (sqrt x)) (\<lambda>dist.
      Inr (dsq, dist)))))))"

function distance_loop ::
  "int \<Rightarrow> int \<Rightarrow> real \<Rightarrow> int list \<Rightarrow> int list \<Rightarrow> int \<Rightarrow> real list \<times> real list
   \<Rightarrow> (real list \<times> real list) result" where
  "distance_loop vi vj cell_size I J i out =
     (if 0 \<le> i \<and> i < int (length I)
      then (case distance_step vi vj cell_size I J i out of
              Inl e \<Rightarrow> Inl e
            | Inr out' \<Rightarrow> distance_loop vi vj cell_size I J (i + 1) out')
      else Inr out)"
  by pat_completeness auto
termination
  by (relation "measure (\<lambda>(vi, vj, cell_size, I, J, i, out). nat (int (length I) - i))") auto

definition compute_distances ::
  "int \<Rightarrow> int \<Rightarrow> real \<Rightarrow> int list \<Rightarrow> int list \<Rightarrow> real list \<Rightarrow> real list
   \<Rightarrow> (real list \<times> real list) result" where
  "compute_distances vi vj cell_size I J distance_sq distance =
     distance_loop vi vj cell_size I J 0 (distance_sq, distance)"

subsection \<open>The active line and the visibility grid\<close>

text \<open>
  \<^verbatim>\<open>cdef struct ActivePixel\<close>. The field \<^verbatim>\<open>is_active\<close> is a C \<^verbatim>\<open>long\<close> that only ever
  receives \<^verbatim>\<open>True\<close> or \<^verbatim>\<open>False\<close> and is only tested for truth.
\<close>

record ActivePixel =
  is_active :: bool
  index :: int
  distance :: real
  visibility :: real
  offset :: real

text \<open>
  The active line is a block of \<^verbatim>\<open>max_line_length\<close> structures obtained from \<^verbatim>\<open>malloc\<close> and
  accessed through a raw pointer, without any bounds check. The model is a flat memory: a
  function from slot indices to structures, whose initial contents \<open>mem\<close> (what \<^verbatim>\<open>malloc\<close>
  leaves in the block, and what lies around it) is a parameter of the sweep. An access
  outside the block, which C leaves undefined, reads or writes that surrounding memory.
\<close>

type_synonym active_line = "int \<Rightarrow> ActivePixel"

text \<open>The visibility map is a two-dimensional numpy array: a list of rows.\<close>

type_synonym grid = "real list list"

definition grid_get :: "grid \<Rightarrow> int \<Rightarrow> int \<Rightarrow> real result" where
  "grid_get m r c = rbind (py_nth m r) (\<lambda>row. py_nth row c)"

definition grid_set :: "grid \<Rightarrow> int \<Rightarrow> int \<Rightarrow> real \<Rightarrow> grid result" where
  "grid_set m r c v =
     rbind (py_index (length m) r) (\<lambda>i.
     rbind (py_set (m ! i) c v) (\<lambda>row.
     Inr (m[i := row])))"

subsection \<open>The Visibility Evaluator\<close>

text \<open>
  The local variables of \<^verbatim>\<open>update_visible_pixels_fast\<close>, with the visibility map it
  writes to. \<open>cur_visibility\<close> and \<open>cur_index\<close> are the locals \<^verbatim>\<open>visibility\<close> and \<^verbatim>\<open>index\<close>.
\<close>

record scan_state =
  max_visibility :: real
  cur_visibility :: real
  cur_index :: int
  active_pixel_count :: int
  last_active_pixel :: int
  vmap :: grid

text \<open>
  The body of the loop for an active pixel \<open>p\<close> at slot \<open>pixel_id\<close> (the two branches of
  the first \<^verbatim>\<open>if\<close> of the source compute the same difference).
\<close>

definition visit_active_pixel ::
  "int list \<Rightarrow> int list \<Rightarrow> int \<Rightarrow> ActivePixel \<Rightarrow> scan_state \<Rightarrow> scan_state result" where
  "visit_active_pixel I J pixel_id p st =
     (let v = (if offset p > max_visibility st then offset p - max_visibility st
               else offset p - max_visibility st);
          mv = (if visibility p > max_visibility st then visibility p else max_visibility st)
      in rbind (py_nth I (index p)) (\<lambda>r.
         rbind (py_nth J (index p)) (\<lambda>c.
         rbind (grid_get (vmap st) r c) (\<lambda>old.
         rbind (if old = 0 then grid_set (vmap st) r c v else Inr (vmap st)) (\<lambda>m.
         Inr \<lparr> max_visibility = mv, cur_visibility = v, cur_index = index p,
               active_pixel_count = active_pixel_count st + 1,
               last_active_pixel = pixel_id, vmap = m \<rparr>)))))"

text \<open>
  \<^verbatim>\<open>for pixel_id in range(pixel_count)\<close>, from \<open>pixel_id\<close> on: an inactive slot is skipped,
  or ends the scan when it lies more than two slots after the last active one. An
  exception ends the loop; the visibility map keeps what was written before it.
\<close>

function update_loop ::
  "active_line \<Rightarrow> int list \<Rightarrow> int list \<Rightarrow> int \<Rightarrow> int \<Rightarrow> scan_state
   \<Rightarrow> (error \<times> grid) + scan_state" where
  "update_loop arr I J pixel_count pixel_id st =
     (if pixel_id < pixel_count
      then (if \<not> is_active (arr pixel_id)
            then (if pixel_id - last_active_pixel st > 2 then Inr st
                  else update_loop arr I J pixel_count (pixel_id + 1) st)
            else (case visit_active_pixel I J pixel_id (arr pixel_id) st of
                    Inl e \<Rightarrow> Inl (e, vmap st)
                  | Inr st' \<Rightarrow> update_loop arr I J pixel_count (pixel_id + 1) st'))
      else Inr st)"
  by pat_completeness auto
termination
  by (relation "measure (\<lambda>(arr, I, J, pixel_count, pixel_id, st). nat (pixel_count - pixel_id))")
    auto

definition scan_start :: "grid \<Rightarrow> scan_state" where
  "scan_start visibility_map =
     \<lparr> max_visibility = - 1000000, cur_visibility = 0, cur_index = - 1,
       active_pixel_count = 0, last_active_pixel = 1, vmap = visibility_map \<rparr>"

text \<open>
  The statement after the loop, marked \<^verbatim>\<open>Debug purposes only!!!!\<close> in the source: the
  step counter \<^verbatim>\<open>a\<close> is written at the cell of the last pixel visited (of index \<open>-1\<close>, the
  last cell of the arrays, when none was).
\<close>

definition debug_write :: "int list \<Rightarrow> int list \<Rightarrow> int \<Rightarrow> scan_state \<Rightarrow> grid result" where
  "debug_write I J a st =
     rbind (py_nth I (cur_index st)) (\<lambda>r.
     rbind (py_nth J (cur_index st)) (\<lambda>c.
     grid_set (vmap st) r c (of_int a)))"

text \<open>
  \<^verbatim>\<open>cdef int update_visible_pixels_fast(active_pixel_array, I, J, pixel_count,
  visibility_map, a)\<close> returns the count of active pixels; the visibility map it has written
  to is returned with it. The function has no \<^verbatim>\<open>except\<close> clause: an \<^verbatim>\<open>IndexError\<close> raised
  inside is dropped, the map keeps the writes made so far and the value returned is 0.
\<close>

definition update_visible_pixels_fast ::
  "active_line \<Rightarrow> int list \<Rightarrow> int list \<Rightarrow> int \<Rightarrow> grid \<Rightarrow> int \<Rightarrow> grid \<times> int" where
  "update_visible_pixels_fast active_pixel_array I J pixel_count visibility_map a =
     (case update_loop active_pixel_array I J pixel_count 0 (scan_start visibility_map) of
        Inl (e, m) \<Rightarrow> (m, 0)
      | Inr st \<Rightarrow>
          (case debug_write I J a st of
             Inl e \<Rightarrow> (vmap st, 0)
           | Inr m \<Rightarrow> (m, active_pixel_count st)))"

subsection \<open>The Sweep Engine\<close>

text \<open>
  The arguments of \<^verbatim>\<open>sweep_through_angles\<close>. The argument \<^verbatim>\<open>visibility\<close> of the source is
  \<open>cell_visibility\<close> here. \<open>perimeter\<close> and \<open>coord\<close> are two-dimensional arrays with one
  row per axis.
\<close>

record sweep_args =
  viewpoint :: "int list"
  perimeter :: "int list list"
  angles :: "real list"
  add_events :: "real list"
  center_events :: "real list"
  remove_events :: "real list"
  arg_min :: "int list"
  arg_center :: "int list"
  arg_max :: "int list"
  coord :: "int list list"
  distances :: "real list"
  offset_visibility :: "real list"
  cell_visibility :: "real list"
  visibility_map :: grid

text \<open>
  What the sweep mutates: the active line, the two index arrays \<^verbatim>\<open>arg_min\<close> and \<^verbatim>\<open>arg_max\<close>
  (the caller's arrays, written in place), the visibility map, the three event cursors and
  the count of the previous step.
\<close>

record sweep_state =
  st_active_pixel_array :: active_line
  st_arg_min :: "int list"
  st_arg_max :: "int list"
  st_visibility_map :: grid
  st_add_event_id :: int
  st_center_event_id :: int
  st_remove_event_id :: int
  st_previous_pixel_count :: int

definition angle_count :: "sweep_args \<Rightarrow> int" where
  "angle_count args = int (length (angles args))"

definition max_line_length :: "sweep_args \<Rightarrow> int" where
  "max_line_length args = angle_count args div 2"

text \<open>
  \<^verbatim>\<open>malloc(max_line_length*sizeof(ActivePixel))\<close>: the number of slots of the block.
\<close>

definition active_line_capacity :: "sweep_args \<Rightarrow> int" where
  "active_line_capacity args = max_line_length args"

text \<open>The loop that deactivates every slot of the block.\<close>

definition deactivate_all :: "active_line \<Rightarrow> int \<Rightarrow> active_line" where
  "deactivate_all mem n = (\<lambda>k. if 0 \<le> k \<and> k < n then (mem k)\<lparr>is_active := False\<rparr> else mem k)"

text \<open>\<^verbatim>\<open>sign[0] = -1\<close>, \<^verbatim>\<open>sign[1] = 1\<close>; the array is only read at the axes 0 and 1.\<close>

definition sign :: "int \<Rightarrow> int" where
  "sign ax = (if ax = 0 then - 1 else 1)"

text \<open>
  The position of the active line for a long axis \<open>l\<close> and the perimeter point of index
  \<open>k\<close>: the locals \<^verbatim>\<open>l, s, Os, Ol, Es, El, Sl, Ss, slope\<close>.
\<close>

record line =
  ln_l :: int
  ln_s :: int
  ln_Os :: real
  ln_Ol :: real
  ln_Es :: real
  ln_El :: real
  ln_Sl :: real
  ln_Ss :: real
  ln_slope :: real

definition perimeter_at :: "sweep_args \<Rightarrow> int \<Rightarrow> int \<Rightarrow> int result" where
  "perimeter_at args ax k = rbind (py_nth (perimeter args) ax) (\<lambda>row. py_nth row k)"

definition line_at :: "sweep_args \<Rightarrow> int \<Rightarrow> int \<Rightarrow> line result" where
  "line_at args l k =
     (let s = 1 - l in
      rbind (py_nth (viewpoint args) s) (\<lambda>vs.
      rbind (py_nth (viewpoint args) l) (\<lambda>vl.
      rbind (perimeter_at args s k) (\<lambda>ps.
      rbind (perimeter_at args l k) (\<lambda>pl.
        let Os = d_of_int (vs * sign s);
            Ol = d_of_int (vl * sign l);
            Es = d_of_int (ps * sign s);
            El = d_of_int (pl * sign l);
            Sl = (if Ol > El then - 1 else 1);
            Ss = (if Os > Es then - 1 else 1)
        in rbind (c_div (d_sub Es Os) (d_sub El Ol)) (\<lambda>slope.
           Inr \<lparr> ln_l = l, ln_s = s, ln_Os = Os, ln_Ol = Ol, ln_Es = Es, ln_El = El,
                 ln_Sl = Sl, ln_Ss = Ss, ln_slope = slope \<rparr>))))))"

text \<open>The choice of the long axis for the perimeter point of index \<open>k\<close>.\<close>

definition long_axis :: "sweep_args \<Rightarrow> int \<Rightarrow> int result" where
  "long_axis args k =
     rbind (perimeter_at args 0 k) (\<lambda>p0.
     rbind (py_nth (viewpoint args) 0) (\<lambda>v0.
     rbind (perimeter_at args 1 k) (\<lambda>p1.
     rbind (py_nth (viewpoint args) 1) (\<lambda>v1.
     Inr (if \<bar>p0 - v0\<bar> > \<bar>p1 - v1\<bar> then 0 else 1)))))"

text \<open>The slot \<^verbatim>\<open>ID\<close> of cell \<open>i\<close> on a line.\<close>

definition slot_of :: "line \<Rightarrow> int list \<Rightarrow> int list \<Rightarrow> int \<Rightarrow> int result" where
  "slot_of lin coordL coordS i =
     rbind (py_nth coordL i) (\<lambda>cl.
     rbind (py_nth coordS i) (\<lambda>cs.
       let Pl = cl * sign (ln_l lin);
           Ps = cs * sign (ln_s lin);
           Dl = d_sub (d_of_int Pl) (ln_Ol lin);
           Ds = d_sub (d_of_int Ps) (ln_Os lin)
       in Inr (active_pixel_index (ln_Ol lin) (ln_Os lin) (d_of_int Pl) (d_of_int Ps)
                 (ln_El lin) (ln_Es lin) Dl Ds (ln_Sl lin) (ln_Ss lin) (ln_slope lin))))"

text \<open>\<^verbatim>\<open>ID+1 if (ID/2)*2 == ID else ID-1\<close>: the paired neighbour of a slot.\<close>

definition alternate :: "int \<Rightarrow> int" where
  "alternate ID = (if (ID div 2) * 2 = ID then ID + 1 else ID - 1)"

definition new_pixel :: "int \<Rightarrow> real \<Rightarrow> real \<Rightarrow> real \<Rightarrow> ActivePixel" where
  "new_pixel i d v ov = \<lparr> is_active = True, index = i, distance = d, visibility = v, offset = ov \<rparr>"

subsubsection \<open>Priming: the cells at angle 0\<close>

definition center_pending :: "sweep_args \<Rightarrow> int \<Rightarrow> bool result" where
  "center_pending args center_event_id =
     rbind (py_nth (arg_center args) center_event_id) (\<lambda>i.
     rbind (py_nth (center_events args) i) (\<lambda>t.
     rbind (py_nth (angles args) 1) (\<lambda>lim.
     Inr (t < lim))))"

definition activate_center ::
  "sweep_args \<Rightarrow> line \<Rightarrow> int list \<Rightarrow> int list \<Rightarrow> int \<Rightarrow> active_line \<Rightarrow> active_line result" where
  "activate_center args lin coordL coordS center_event_id arr =
     rbind (py_nth (arg_center args) center_event_id) (\<lambda>i.
     rbind (py_nth (distances args) i) (\<lambda>d.
     rbind (py_nth (cell_visibility args) i) (\<lambda>v.
     rbind (py_nth (offset_visibility args) i) (\<lambda>ov.
     rbind (slot_of lin coordL coordS i) (\<lambda>ID.
     Inr (arr(ID := new_pixel i d v ov)))))))"

text \<open>The first \<^verbatim>\<open>while\<close> loop; it returns the line, the cursor and the count of cells added.\<close>

function prime_loop ::
  "sweep_args \<Rightarrow> line \<Rightarrow> int list \<Rightarrow> int list \<Rightarrow> int \<Rightarrow> int \<Rightarrow> active_line
   \<Rightarrow> (active_line \<times> int \<times> int) result" where
  "prime_loop args lin coordL coordS center_event_id add_pixel_count arr =
     (if 0 \<le> center_event_id \<and> center_event_id < int (length (center_events args))
      then (case center_pending args center_event_id of
              Inl e \<Rightarrow> Inl e
            | Inr pending \<Rightarrow>
                if pending
                then (case activate_center args lin coordL coordS center_event_id arr of
                        Inl e \<Rightarrow> Inl e
                      | Inr arr' \<Rightarrow> prime_loop args lin coordL coordS (center_event_id + 1)
                                     (add_pixel_count + 1) arr')
                else Inr (arr, center_event_id, add_pixel_count))
      else Inr (arr, center_event_id, add_pixel_count))"
  by pat_completeness auto
termination
  by (relation "measure (\<lambda>(args, lin, coordL, coordS, center_event_id, add_pixel_count, arr).
        nat (int (length (center_events args)) - center_event_id))") auto

subsubsection \<open>Removing cells\<close>

definition remove_pending :: "sweep_args \<Rightarrow> int list \<Rightarrow> int \<Rightarrow> int \<Rightarrow> bool result" where
  "remove_pending args arg_max' remove_event_id a =
     rbind (py_nth arg_max' remove_event_id) (\<lambda>i.
     rbind (py_nth (remove_events args) i) (\<lambda>t.
     rbind (py_nth (angles args) (a + 1)) (\<lambda>lim.
     Inr (t \<le> lim))))"

definition deactivate ::
  "sweep_args \<Rightarrow> line \<Rightarrow> int list \<Rightarrow> int list \<Rightarrow> int \<Rightarrow> active_line \<times> int list
   \<Rightarrow> (active_line \<times> int list) result" where
  "deactivate args lin coordL coordS remove_event_id st =
     rbind (py_nth (snd st) remove_event_id) (\<lambda>i.
     rbind (py_nth (distances args) i) (\<lambda>d.
     rbind (slot_of lin coordL coordS i) (\<lambda>ID.
       let arr = fst st;
           ID' = (if \<not> is_active (arr ID) \<or> distance (arr ID) \<noteq> d then alternate ID else ID)
       in rbind (py_set (snd st) remove_event_id 0) (\<lambda>arg_max'.
          Inr (arr(ID' := (arr ID')\<lparr>is_active := False\<rparr>), arg_max')))))"

function remove_loop ::
  "sweep_args \<Rightarrow> line \<Rightarrow> int list \<Rightarrow> int list \<Rightarrow> int \<Rightarrow> int \<Rightarrow> int \<Rightarrow> active_line \<times> int list
   \<Rightarrow> ((active_line \<times> int list) \<times> int \<times> int) result" where
  "remove_loop args lin coordL coordS a remove_event_id remove_pixel_count st =
     (if 0 \<le> remove_event_id \<and> remove_event_id < int (length (remove_events args))
      then (case remove_pending args (snd st) remove_event_id a of
              Inl e \<Rightarrow> Inl e
            | Inr pending \<Rightarrow>
                if pending
                then (case deactivate args lin coordL coordS remove_event_id st of
                        Inl e \<Rightarrow> Inl e
                      | Inr st' \<Rightarrow> remove_loop args lin coordL coordS a (remove_event_id + 1)
                                    (remove_pixel_count + 1) st')
                else Inr (st, remove_event_id, remove_pixel_count))
      else Inr (st, remove_event_id, remove_pixel_count))"
  by pat_completeness auto
termination
  by (relation "measure (\<lambda>(args, lin, coordL, coordS, a, remove_event_id, remove_pixel_count, st).
        nat (int (length (remove_events args)) - remove_event_id))") auto

subsubsection \<open>Adding cells\<close>

definition add_pending :: "sweep_args \<Rightarrow> int list \<Rightarrow> int \<Rightarrow> int \<Rightarrow> bool result" where
  "add_pending args arg_min' add_event_id a =
     rbind (py_nth arg_min' add_event_id) (\<lambda>i.
     rbind (py_nth (add_events args) i) (\<lambda>t.
     rbind (py_nth (angles args) (a + 1)) (\<lambda>lim.
     Inr (t < lim))))"

text \<open>
  A collision moves the occupant of the slot to its paired neighbour; then the slot is
  asserted to lie inside the block, and receives the new cell.
\<close>

definition activate ::
  "sweep_args \<Rightarrow> line \<Rightarrow> int list \<Rightarrow> int list \<Rightarrow> int \<Rightarrow> active_line \<times> int list
   \<Rightarrow> (active_line \<times> int list) result" where
  "activate args lin coordL coordS add_event_id st =
     rbind (py_nth (snd st) add_event_id) (\<lambda>i.
     rbind (py_nth (distances args) i) (\<lambda>d.
     rbind (py_nth (cell_visibility args) i) (\<lambda>v.
     rbind (py_nth (offset_visibility args) i) (\<lambda>ov.
     rbind (slot_of lin coordL coordS i) (\<lambda>ID.
       let arr = fst st;
           arr1 = (if is_active (arr ID) then arr(alternate ID := arr ID) else arr)
       in if 0 \<le> ID \<and> ID < max_line_length args
          then rbind (py_set (snd st) add_event_id 0) (\<lambda>arg_min'.
               Inr (arr1(ID := new_pixel i d v ov), arg_min'))
          else Inl AssertionError)))))"

function add_loop ::
  "sweep_args \<Rightarrow> line \<Rightarrow> int list \<Rightarrow> int list \<Rightarrow> int \<Rightarrow> int \<Rightarrow> int \<Rightarrow> active_line \<times> int list
   \<Rightarrow> ((active_line \<times> int list) \<times> int \<times> int) result" where
  "add_loop args lin coordL coordS a add_event_id add_pixel_count st =
     (if 0 \<le> add_event_id \<and> add_event_id < int (length (add_events args))
      then (case add_pending args (snd st) add_event_id a of
              Inl e \<Rightarrow> Inl e
            | Inr pending \<Rightarrow>
                if pending
                then (case activate args lin coordL coordS add_event_id st of
                        Inl e \<Rightarrow> Inl e
                      | Inr st' \<Rightarrow> add_loop args lin coordL coordS a (add_event_id + 1)
                                    (add_pixel_count + 1) st')
                else Inr (st, add_event_id, add_pixel_count))
      else Inr (st, add_event_id, add_pixel_count))"
  by pat_completeness auto
termination
  by (relation "measure (\<lambda>(args, lin, coordL, coordS, a, add_event_id, add_pixel_count, st).
        nat (int (length (add_events args)) - add_event_id))") auto

subsubsection \<open>The steps of the sweep\<close>

text \<open>
  The consistency assertion that ends every step:
  \<^verbatim>\<open>assert active_pixel_count == previous_pixel_count + add_pixel_count - remove_pixel_count\<close>.
\<close>

definition check_counts :: "int \<Rightarrow> int \<Rightarrow> int \<Rightarrow> int \<Rightarrow> unit result" where
  "check_counts counted previous added removed =
     (if counted = previous + added - removed then Inr () else Inl AssertionError)"

text \<open>
  The priming step up to its assertion: the initial line (long axis 1, perimeter point 0),
  the allocation of the active line (assumed to succeed), the first loop and one pass of
  the evaluator with step counter 1. It returns the state, the count of the evaluator and
  the number of cells added.
\<close>

definition prime_phase :: "active_line \<Rightarrow> sweep_args \<Rightarrow> (sweep_state \<times> int \<times> int) result" where
  "prime_phase mem args =
     rbind (line_at args 1 0) (\<lambda>lin.
     rbind (py_nth (coord args) 1) (\<lambda>coordL.
     rbind (py_nth (coord args) 0) (\<lambda>coordS.
     rbind (prime_loop args lin coordL coordS 0 0
              (deactivate_all mem (max_line_length args))) (\<lambda>(arr, cid, added).
     rbind (py_nth (coord args) 0) (\<lambda>I.
     rbind (py_nth (coord args) 1) (\<lambda>J.
     (case update_visible_pixels_fast arr I J (max_line_length args)
             (visibility_map args) 1 of (m, counted) \<Rightarrow>
     Inr (\<lparr> st_active_pixel_array = arr, st_arg_min = arg_min args,
            st_arg_max = arg_max args, st_visibility_map = m, st_add_event_id = 0,
            st_center_event_id = cid, st_remove_event_id = 0,
            st_previous_pixel_count = 0 \<rparr>, counted, added))))))))"

definition sweep_prime :: "active_line \<Rightarrow> sweep_args \<Rightarrow> sweep_state result" where
  "sweep_prime mem args =
     rbind (prime_phase mem args) (\<lambda>(st, counted, added).
     rbind (check_counts counted 0 added 0) (\<lambda>_.
     Inr (st\<lparr>st_previous_pixel_count := counted\<rparr>)))"

text \<open>
  Step \<open>a\<close> of the main loop up to its assertion: remove on the line through perimeter
  point \<open>a\<close>, add on the line through perimeter point \<open>a + 1\<close>, one pass of the evaluator
  with step counter \<open>a + 1\<close>. It returns the state, the count of the evaluator and the
  numbers of cells added and removed.
\<close>

definition step_phase ::
  "sweep_args \<Rightarrow> int \<Rightarrow> sweep_state \<Rightarrow> (sweep_state \<times> int \<times> int \<times> int) result" where
  "step_phase args a st =
     rbind (long_axis args a) (\<lambda>l.
     rbind (py_nth (coord args) l) (\<lambda>coordL.
     rbind (py_nth (coord args) (1 - l)) (\<lambda>coordS.
     rbind (line_at args l a) (\<lambda>lin.
     rbind (remove_loop args lin coordL coordS a (st_remove_event_id st) 0
              (st_active_pixel_array st, st_arg_max st)) (\<lambda>(rst, rid, removed).
     rbind (long_axis args (a + 1)) (\<lambda>l'.
     rbind (py_nth (coord args) l') (\<lambda>coordL'.
     rbind (py_nth (coord args) (1 - l')) (\<lambda>coordS'.
     rbind (line_at args l' (a + 1)) (\<lambda>lin'.
     rbind (add_loop args lin' coordL' coordS' a (st_add_event_id st) 0
              (fst rst, st_arg_min st)) (\<lambda>(ast, aid, added).
     rbind (py_nth (coord args) 0) (\<lambda>I.
     rbind (py_nth (coord args) 1) (\<lambda>J.
     (case update_visible_pixels_fast (fst ast) I J (max_line_length args)
             (st_visibility_map st) (a + 1) of (m, counted) \<Rightarrow>
     Inr (st\<lparr> st_active_pixel_array := fst ast, st_arg_min := snd ast,
              st_arg_max := snd rst, st_visibility_map := m,
              st_add_event_id := aid, st_remove_event_id := rid \<rparr>,
          counted, added, removed))))))))))))))"

definition sweep_step :: "sweep_args \<Rightarrow> int \<Rightarrow> sweep_state \<Rightarrow> sweep_state result" where
  "sweep_step args a st =
     rbind (step_phase args a st) (\<lambda>(st', counted, added, removed).
     rbind (check_counts counted (st_previous_pixel_count st) added removed) (\<lambda>_.
     Inr (st'\<lparr>st_previous_pixel_count := counted\<rparr>)))"

text \<open>The steps \<open>a, a + 1, \<dots>, n - 1\<close> of \<^verbatim>\<open>for a in range(angle_count-2)\<close>.\<close>

function sweep_loop :: "sweep_args \<Rightarrow> int \<Rightarrow> int \<Rightarrow> sweep_state \<Rightarrow> sweep_state result" where
  "sweep_loop args n a st =
     (if a < n
      then (case sweep_step args a st of
              Inl e \<Rightarrow> Inl e
            | Inr st' \<Rightarrow> sweep_loop args n (a + 1) st')
      else Inr st)"
  by pat_completeness auto
termination
  by (relation "measure (\<lambda>(args, n, a, st). nat (n - a))") auto

text \<open>
  \<^verbatim>\<open>sweep_through_angles\<close> returns the visibility map. The call also leaves its writes in
  the caller's arrays \<^verbatim>\<open>arg_min\<close> and \<^verbatim>\<open>arg_max\<close>; their final contents are returned with
  the map.
\<close>

record sweep_result =
  visibility_map_out :: grid
  arg_min_out :: "int list"
  arg_max_out :: "int list"

definition sweep_through_angles :: "active_line \<Rightarrow> sweep_args \<Rightarrow> sweep_result result" where
  "sweep_through_angles mem args =
     rbind (sweep_prime mem args) (\<lambda>st.
     rbind (sweep_loop args (angle_count args - 2) 0 st) (\<lambda>st'.
     Inr \<lparr> visibility_map_out = st_visibility_map st', arg_min_out = st_arg_min st',
           arg_max_out = st_arg_max st' \<rparr>))"

subsection \<open>The evaluator in the words of the specification\<close>

text \<open>
  The slots a pass of the evaluator visits, in index order: the active slots from
  \<open>pixel_id\<close> on, up to the end of the line or to the first inactive slot that lies more
  than two slots after the last active one (\<open>last_active\<close>).
\<close>

function scanned_slots :: "active_line \<Rightarrow> int \<Rightarrow> int \<Rightarrow> int \<Rightarrow> int list" where
  "scanned_slots arr pixel_count pixel_id last_active =
     (if pixel_id < pixel_count
      then (if is_active (arr pixel_id)
            then pixel_id # scanned_slots arr pixel_count (pixel_id + 1) pixel_id
            else if pixel_id - last_active > 2 then []
            else scanned_slots arr pixel_count (pixel_id + 1) last_active)
      else [])"
  by pat_completeness auto
termination
  by (relation "measure (\<lambda>(arr, pixel_count, pixel_id, last_active).
        nat (pixel_count - pixel_id))") auto

text \<open>Stamping a value at a position that still holds the unseen sentinel zero.\<close>

definition stamp_unseen :: "grid \<Rightarrow> int \<Rightarrow> int \<Rightarrow> real \<Rightarrow> grid result" where
  "stamp_unseen g r c v =
     rbind (grid_get g r c) (\<lambda>old. if old = 0 then grid_set g r c v else Inr g)"

text \<open>
  The pass over a list of slots, carrying the running maximum and the grid: the computed
  visibility of a slot is its offset minus the running maximum so far, it is stamped at
  the cell of the slot if that position is unseen, and the running maximum is updated with
  the visibility field of the slot.
\<close>

fun spec_scan ::
  "active_line \<Rightarrow> int list \<Rightarrow> int list \<Rightarrow> int list \<Rightarrow> real \<times> grid \<Rightarrow> (real \<times> grid) result" where
  "spec_scan arr I J [] acc = Inr acc"
| "spec_scan arr I J (k # ks) acc =
     (case rbind (py_nth I (index (arr k))) (\<lambda>r.
           rbind (py_nth J (index (arr k))) (\<lambda>c.
           stamp_unseen (snd acc) r c (offset (arr k) - fst acc))) of
        Inl e \<Rightarrow> Inl e
      | Inr g \<Rightarrow> spec_scan arr I J ks (max (fst acc) (visibility (arr k)), g))"

text \<open>What a pass leaves behind: the running maximum, the grid and the count.\<close>

definition scan_outcome :: "scan_state \<Rightarrow> real \<times> grid \<times> int" where
  "scan_outcome st = (max_visibility st, vmap st, active_pixel_count st)"

subsection \<open>Observing the counts of a step\<close>

text \<open>
  The four numbers of the consistency assertion as the priming step and step \<open>k\<close> of
  the main loop compute them: the count of the previous step, the cells added, the cells
  removed and the count of the evaluator.
\<close>

definition prime_counts :: "active_line \<Rightarrow> sweep_args \<Rightarrow> (int \<times> int \<times> int \<times> int) result" where
  "prime_counts mem args =
     rbind (prime_phase mem args) (\<lambda>(st, counted, added). Inr (0, added, 0, counted))"

definition step_counts ::
  "active_line \<Rightarrow> sweep_args \<Rightarrow> int \<Rightarrow> (int \<times> int \<times> int \<times> int) result" where
  "step_counts mem args k =
     rbind (sweep_prime mem args) (\<lambda>st0.
     rbind (sweep_loop args k 0 st0) (\<lambda>stk.
     rbind (step_phase args k stk) (\<lambda>(st', counted, added, removed).
     Inr (st_previous_pixel_count stk, added, removed, counted))))"

text \<open>
  A prefix of an index array has been consumed: its first \<open>k\<close> entries are overwritten
  with 0 and the others are as they were.
\<close>

definition consumed :: "int list \<Rightarrow> int \<Rightarrow> int list \<Rightarrow> bool" where
  "consumed xs0 k xs = (0 \<le> k \<and> nat k \<le> length xs0 \<and> xs = replicate (nat k) 0 @ drop (nat k) xs0)"

text \<open>The invariant of the sweep state: both index arrays are consumed up to their cursors.\<close>

definition arrays_consumed :: "sweep_args \<Rightarrow> sweep_state \<Rightarrow> bool" where
  "arrays_consumed args st =
     (consumed (arg_min args) (st_add_event_id st) (st_arg_min st)
      \<and> consumed (arg_max args) (st_remove_event_id st) (st_arg_max st))"

subsection \<open>Concrete inputs\<close>

text \<open>A memory whose slots are all inactive and zero.\<close>

definition blank :: active_line where
  "blank = (\<lambda>k. \<lparr> is_active = False, index = 0, distance = 0, visibility = 0, offset = 0 \<rparr>)"

text \<open>
  Two active lines over the three cells \<open>(0,0)\<close>, \<open>(0,1)\<close>, \<open>(0,2)\<close> of a 1\<times>3 grid, all
  flat: the three cells in slots 0, 1, 2, and the last two alone.
\<close>

definition line_abc :: active_line where
  "line_abc = blank(0 := new_pixel 0 1 0 0, 1 := new_pixel 1 2 0 0, 2 := new_pixel 2 3 0 0)"

definition line_bc :: active_line where
  "line_bc = blank(1 := new_pixel 1 2 0 0, 2 := new_pixel 2 3 0 0)"

text \<open>
  Modelled from the spec: the perimeter, the sweep angles and the sorted index arrays are
  prepared by the caller of \<^verbatim>\<open>sweep_through_angles\<close>, which is not among the sources. The
  inputs below follow the specification: the perimeter is the bounding rectangle of the
  grid, traced counter-clockwise from the point due east of the viewpoint, one point per
  angle step; the angles are the centre angles of the perimeter points, closed by 2\<pi>; the
  three event arrays are the minimum, centre and maximum angles of the cells in row-major
  order, as \<^verbatim>\<open>list_extreme_cell_angles\<close> lists them; the index arrays sort them stably.
  Angles and distances are written with the digits of their floating-point values. Every
  offset and visibility is 0 (a flat field) and the visibility map starts at 0.

  The 3\<times>3 grid with the viewpoint at its centre \<open>(1,1)\<close>.
\<close>

definition flat_3x3 :: sweep_args where
  "flat_3x3 =
     \<lparr> viewpoint = [1, 1],
       perimeter = [[1, 0, 0, 0, 1, 2, 2, 2], [2, 2, 1, 0, 0, 0, 1, 2]],
       angles = [0, 0.7853981633974483, 1.5707963267948966, 2.356194490192344,
           3.141592653589793, 3.9269908169872414, 4.71238898038469, 5.497787143782138,
           6.283185307179586],
       add_events = [1.8925468811915387, 0.7853981633974483, 0.32175055439664213,
           2.356194490192344, 5.497787143782138, 3.4633432079864352, 3.9269908169872414,
           5.034139534781332],
       center_events = [2.356194490192344, 1.5707963267948966, 0.7853981633974483,
           3.141592653589793, 0, 3.9269908169872414, 4.71238898038469,
           5.497787143782138],
       remove_events = [2.819842099193151, 2.356194490192344, 1.2490457723982544,
           3.9269908169872414, 0.7853981633974483, 4.3906384259880475,
           5.497787143782138, 5.961434752782944],
       arg_min = [2, 1, 0, 3, 5, 6, 7, 4],
       arg_center = [4, 2, 1, 0, 3, 5, 6, 7],
       arg_max = [4, 2, 1, 0, 3, 5, 6, 7],
       coord = [[0, 0, 0, 1, 1, 2, 2, 2], [0, 1, 2, 0, 2, 0, 1, 2]],
       distances = [1.4142135623730951, 1, 1.4142135623730951, 1, 1, 1.4142135623730951, 1,
           1.4142135623730951],
       offset_visibility = [0, 0, 0, 0, 0, 0, 0, 0],
       cell_visibility = [0, 0, 0, 0, 0, 0, 0, 0],
       visibility_map = [[0, 0, 0], [0, 0, 0], [0, 0, 0]] \<rparr>"

text \<open>
  The same input with the two index arrays as a first run of the sweep leaves them.
\<close>

definition flat_3x3_again :: sweep_args where
  "flat_3x3_again =
     flat_3x3 \<lparr> arg_min := [0, 0, 0, 0, 0, 0, 0, 4], arg_max := [0, 0, 0, 0, 0, 0, 0, 7] \<rparr>"

text \<open>The same again, with the visibility map as the first run leaves it.\<close>

definition flat_3x3_again_map :: sweep_args where
  "flat_3x3_again_map = flat_3x3_again \<lparr> visibility_map := [[3, 2, 1], [4, 0, 1], [5, 6, 7]] \<rparr>"

text \<open>
  The line through the second perimeter point \<open>(0,2)\<close> of that input: the value of
  \<open>line_at flat_3x3 1 1\<close>.
\<close>

definition east_line :: line where
  "east_line = \<lparr> ln_l = 1, ln_s = 0, ln_Os = - 1, ln_Ol = 1, ln_Es = 0, ln_El = 2,
                 ln_Sl = 1, ln_Ss = 1, ln_slope = 1 \<rparr>"

text \<open>
  Modelled from the spec: the same preparation for the 5\<times>5 grid with the viewpoint at
  its centre \<open>(2,2)\<close>.
\<close>

definition flat_5x5 :: sweep_args where
  "flat_5x5 =
     \<lparr> viewpoint = [2, 2],
       perimeter = [[2, 1, 0, 0, 0, 0, 0, 1, 2, 3, 4, 4, 4, 4, 4, 3], [4, 4, 4, 3, 2, 1, 0, 0,
           0, 0, 0, 1, 2, 3, 4, 4]],
       angles = [0, 0.46364760900080615, 0.7853981633974483, 1.1071487177940904,
           1.5707963267948966, 2.0344439357957036, 2.356194490192344, 2.677945044588988,
           3.141592653589793, 3.6052402625905993, 3.9269908169872414,
           4.2487413713838835, 4.71238898038469, 5.176036589385496, 5.497787143782138,
           5.81953769817878, 6.283185307179586],
       add_events = [2.1112158270654806, 1.768191886644777, 1.2490457723982544,
           0.7853981633974483, 0.540419500270584, 2.356194490192344, 1.8925468811915387,
           0.7853981633974483, 0.32175055439664213, 0.19739555984988044,
           2.819842099193151, 2.356194490192344, 5.497787143782138, 5.961434752782944,
           3.3389882134396736, 3.4633432079864352, 3.9269908169872414,
           5.034139534781332, 5.497787143782138, 3.682012153860377, 3.9269908169872414,
           4.3906384259880475, 4.90978454023457, 5.252808480655274],
       center_events = [2.356194490192344, 2.0344439357957036, 1.5707963267948966,
           1.1071487177940904, 0.7853981633974483, 2.677945044588988, 2.356194490192344,
           1.5707963267948966, 0.7853981633974483, 0.46364760900080615,
           3.141592653589793, 3.141592653589793, 0, 0, 3.6052402625905993,
           3.9269908169872414, 4.71238898038469, 5.497787143782138, 5.81953769817878,
           3.9269908169872414, 4.2487413713838835, 4.71238898038469, 5.176036589385496,
           5.497787143782138],
       remove_events = [2.601173153319209, 2.356194490192344, 1.8925468811915387,
           1.3734007669450161, 1.0303768265243125, 2.9441970937399127,
           2.819842099193151, 2.356194490192344, 1.2490457723982544, 0.7853981633974483,
           3.4633432079864352, 3.9269908169872414, 0.7853981633974483,
           0.32175055439664213, 3.9269908169872414, 4.3906384259880475,
           5.497787143782138, 5.961434752782944, 6.085789747329706, 4.171969480114106,
           4.514993420534809, 5.034139534781332, 5.497787143782138, 5.742765806909002],
       arg_min = [9, 8, 4, 3, 7, 2, 1, 6, 0, 5, 11, 10, 14, 15, 19, 16, 20, 21, 22, 17, 23, 12,
           18, 13],
       arg_center = [12, 13, 9, 4, 8, 3, 2, 7, 1, 0, 6, 5, 10, 11, 14, 15, 19, 20, 16, 21, 22,
           17, 23, 18],
       arg_max = [13, 9, 12, 4, 8, 3, 2, 1, 7, 0, 6, 5, 10, 11, 14, 19, 15, 20, 21, 16, 22, 23,
           17, 18],
       coord = [[0, 0, 0, 0, 0, 1, 1, 1, 1, 1, 2, 2, 2, 2, 3, 3, 3, 3, 3, 4, 4, 4, 4, 4], [0,
           1, 2, 3, 4, 0, 1, 2, 3, 4, 0, 1, 3, 4, 0, 1, 2, 3, 4, 0, 1, 2, 3, 4]],
       distances = [2.8284271247461903, 2.23606797749979, 2, 2.23606797749979,
           2.8284271247461903, 2.23606797749979, 1.4142135623730951, 1,
           1.4142135623730951, 2.23606797749979, 2, 1, 1, 2, 2.23606797749979,
           1.4142135623730951, 1, 1.4142135623730951, 2.23606797749979,
           2.8284271247461903, 2.23606797749979, 2, 2.23606797749979,
           2.8284271247461903],
       offset_visibility = [0, 0, 0, 0, 0, 0, 0, 0, 0, 0, 0, 0, 0, 0, 0, 0, 0, 0, 0, 0, 0, 0,
           0, 0],
       cell_visibility = [0, 0, 0, 0, 0, 0, 0, 0, 0, 0, 0, 0, 0, 0, 0, 0, 0, 0, 0, 0, 0, 0, 0,
           0],
       visibility_map = [[0, 0, 0, 0, 0], [0, 0, 0, 0, 0], [0, 0, 0, 0, 0], [0, 0, 0, 0, 0],
           [0, 0, 0, 0, 0]] \<rparr>"

text \<open>
  Modelled from the spec: the same preparation for a 3\<times>5 grid with the viewpoint at
  \<open>(1,1)\<close>, off the centre of the grid.
\<close>

definition wide_3x5 :: sweep_args where
  "wide_3x5 =
     \<lparr> viewpoint = [1, 1],
       perimeter = [[1, 0, 0, 0, 0, 0, 1, 2, 2, 2, 2, 2], [4, 4, 3, 2, 1, 0, 0, 0, 1, 2, 3, 4]],
       angles = [0, 0.32175055439664213, 0.46364760900080615, 0.7853981633974483,
           1.5707963267948966, 2.356194490192344, 3.141592653589793, 3.9269908169872414,
           4.71238898038469, 5.497787143782138, 5.81953769817878, 5.961434752782944,
           6.283185307179586],
       add_events = [1.8925468811915387, 0.7853981633974483, 0.32175055439664213,
           0.19739555984988044, 0.14189705460416402, 2.356194490192344,
           5.497787143782138, 5.961434752782944, 6.085789747329706, 3.4633432079864352,
           3.9269908169872414, 5.034139534781332, 5.497787143782138, 5.742765806909002],
       center_events = [2.356194490192344, 1.5707963267948966, 0.7853981633974483,
           0.46364760900080615, 0.32175055439664213, 3.141592653589793, 0, 0, 0,
           3.9269908169872414, 4.71238898038469, 5.497787143782138, 5.81953769817878,
           5.961434752782944],
       remove_events = [2.819842099193151, 2.356194490192344, 1.2490457723982544,
           0.7853981633974483, 0.540419500270584, 3.9269908169872414,
           0.7853981633974483, 0.32175055439664213, 0.19739555984988044,
           4.3906384259880475, 5.497787143782138, 5.961434752782944, 6.085789747329706,
           6.141288252575422],
       arg_min = [4, 3, 2, 1, 0, 5, 9, 10, 11, 6, 12, 13, 7, 8],
       arg_center = [6, 7, 8, 4, 3, 2, 1, 0, 5, 9, 10, 11, 12, 13],
       arg_max = [8, 7, 4, 3, 6, 2, 1, 0, 5, 9, 10, 11, 12, 13],
       coord = [[0, 0, 0, 0, 0, 1, 1, 1, 1, 2, 2, 2, 2, 2], [0, 1, 2, 3, 4, 0, 2, 3, 4, 0, 1,
           2, 3, 4]],
       distances = [1.4142135623730951, 1, 1.4142135623730951, 2.23606797749979,
           3.1622776601683795, 1, 1, 2, 3, 1.4142135623730951, 1, 1.4142135623730951,
           2.23606797749979, 3.1622776601683795],
       offset_visibility = [0, 0, 0, 0, 0, 0, 0, 0, 0, 0, 0, 0, 0, 0],
       cell_visibility = [0, 0, 0, 0, 0, 0, 0, 0, 0, 0, 0, 0, 0, 0],
       visibility_map = [[0, 0, 0, 0, 0], [0, 0, 0, 0, 0], [0, 0, 0, 0, 0]] \<rparr>"

text \<open>
  The recursive equations of the loops are unfolded on demand, not by the simplifier on
  its own.
\<close>

declare distance_loop.simps [simp del] update_loop.simps [simp del] prime_loop.simps [simp del]
  remove_loop.simps [simp del] add_loop.simps [simp del] sweep_loop.simps [simp del]
  scanned_slots.simps [simp del] bit_length.simps [simp del]

section \<open>Verification\<close>

subsection \<open>Doubles: exponent, error of a rounding, exact operations\<close>

lemma bit_length_0: "bit_length 0 = 0"
  by (simp add: bit_length.simps)

lemma bit_length_pos: "0 < n \<Longrightarrow> bit_length n = Suc (bit_length (n div 2))"
  by (subst bit_length.simps) simp

lemma bit_length_bounds: "0 < n \<Longrightarrow> 2 ^ (bit_length n - 1) \<le> n \<and> n < 2 ^ bit_length n"
proof (induction n rule: bit_length.induct)
  case (1 n)
  show ?case
  proof (cases "n div 2 = 0")
    case True
    with "1.prems" have "n = 1" by presburger
    then show ?thesis by (simp add: bit_length_pos bit_length_0)
  next
    case False
    then have p: "0 < n div 2" by simp
    from "1.IH"[OF _ p] "1.prems"
    have ih: "2 ^ (bit_length (n div 2) - 1) \<le> n div 2" "n div 2 < 2 ^ bit_length (n div 2)"
      by auto
    have b: "0 < bit_length (n div 2)" using p by (simp add: bit_length_pos)
    then obtain c where c: "bit_length (n div 2) = Suc c" by (cases "bit_length (n div 2)") auto
    have "2 ^ Suc c \<le> n" using ih(1) c by simp
    moreover have "n < 2 ^ Suc (Suc c)" using ih(2) c by simp
    ultimately show ?thesis using "1.prems" c by (simp add: bit_length_pos)
  qed
qed

lemma real_pow2_le: "(2::nat) ^ a \<le> n \<Longrightarrow> (2::real) ^ a \<le> real n"
proof -
  assume "(2::nat) ^ a \<le> n"
  then have "real (2 ^ a) \<le> real n" by (rule of_nat_mono)
  then show ?thesis by simp
qed

lemma real_lt_pow2: "n < (2::nat) ^ a \<Longrightarrow> real n + 1 \<le> (2::real) ^ a"
proof -
  assume "n < (2::nat) ^ a"
  then have "Suc n \<le> 2 ^ a" by simp
  then have "real (Suc n) \<le> real (2 ^ a)" by (rule of_nat_mono)
  then show ?thesis by simp
qed

lemma expo_bounds_big:
  assumes "1 \<le> \<bar>x\<bar>"
  shows "2 powi expo x \<le> \<bar>x\<bar> \<and> \<bar>x\<bar> < 2 powi (expo x + 1)"
proof -
  define n where "n = nat \<lfloor>\<bar>x\<bar>\<rfloor>"
  have n: "0 < n" using assms by (simp add: n_def)
  have nx: "real n \<le> \<bar>x\<bar>" "\<bar>x\<bar> < real n + 1"
    using assms by (simp_all add: n_def)
  from bit_length_bounds[OF n] have b: "2 ^ (bit_length n - 1) \<le> n" "n < 2 ^ bit_length n"
    by auto
  have bp: "0 < bit_length n" using n by (simp add: bit_length_pos)
  have e: "expo x = int (bit_length n - 1)" using assms bp by (simp add: expo_def n_def)
  have e1: "expo x + 1 = int (bit_length n)" using bp by (simp add: e)
  have "2 powi expo x = (2::real) ^ (bit_length n - 1)" unfolding e by simp
  moreover have "2 powi (expo x + 1) = (2::real) ^ bit_length n" unfolding e1 by simp
  ultimately show ?thesis using real_pow2_le[OF b(1)] real_lt_pow2[OF b(2)] nx by linarith
qed

lemma expo_bounds_small:
  assumes "x \<noteq> 0" "\<bar>x\<bar> < 1"
  shows "2 powi expo x \<le> \<bar>x\<bar> \<and> \<bar>x\<bar> < 2 powi (expo x + 1)"
proof -
  define y where "y = \<bar>x\<bar>"
  have y: "0 < y" "y < 1" using assms by (simp_all add: y_def)
  define n where "n = nat \<lceil>1 / y\<rceil>"
  have iy: "1 < 1 / y" using y by simp
  have c0: "1 < \<lceil>1 / y\<rceil>" using iy by linarith
  have n2: "2 \<le> n" unfolding n_def using c0 by linarith
  have rn: "real n = of_int \<lceil>1 / y\<rceil>" using c0 by (simp add: n_def)
  have nb: "real n - 1 < 1 / y" "1 / y \<le> real n"
    unfolding rn by linarith+
  define k where "k = bit_length (n - 1)"
  have "0 < n - 1" using n2 by simp
  from bit_length_bounds[OF this] have b: "2 ^ (k - 1) \<le> n - 1" "n - 1 < 2 ^ k"
    by (auto simp: k_def)
  have kp: "0 < k" using \<open>0 < n - 1\<close> by (simp add: k_def bit_length_pos)
  have e: "expo x = - int k" using assms by (simp add: expo_def n_def k_def y_def)
  have m1: "real (n - 1) = real n - 1" using n2 by (simp add: of_nat_diff)
  have r1: "(2::real) ^ (k - 1) \<le> real n - 1"
    using real_pow2_le[OF b(1)] m1 by simp
  have r2: "real n \<le> 2 ^ k"
    using real_lt_pow2[OF b(2)] m1 by simp
  have u: "1 / y \<le> 2 ^ k" using nb(2) r2 by linarith
  have l: "(2::real) ^ (k - 1) < 1 / y" using nb(1) r1 by linarith
  have a1: "1 / 2 ^ k \<le> y" using u y by (simp add: field_simps)
  have a2: "y < 1 / 2 ^ (k - 1)" using l y by (simp add: field_simps)
  have p1: "2 powi expo x = 1 / (2::real) ^ k"
    unfolding e by (simp add: power_int_minus field_simps)
  have e1: "expo x + 1 = - int (k - 1)" using kp by (simp add: e)
  have p2: "2 powi (expo x + 1) = 1 / (2::real) ^ (k - 1)"
    unfolding e1 by (simp add: power_int_minus field_simps)
  show ?thesis unfolding p1 p2 using a1 a2 by (simp add: y_def)
qed

lemma expo_bounds:
  assumes "x \<noteq> 0"
  shows "2 powi expo x \<le> \<bar>x\<bar>" "\<bar>x\<bar> < 2 powi (expo x + 1)"
  using expo_bounds_big[of x] expo_bounds_small[of x] assms
  by (cases "1 \<le> \<bar>x\<bar>"; simp)+

lemma round_half_even_error: "\<bar>of_int (round_half_even m) - m\<bar> \<le> 1/2"
proof -
  have "of_int \<lfloor>m\<rfloor> \<le> m" "m < of_int \<lfloor>m\<rfloor> + 1" by linarith+
  then show ?thesis by (auto simp: round_half_even_def Let_def)
qed

lemma round_half_even_of_int: "round_half_even (of_int k) = k"
  by (simp add: round_half_even_def)

lemma ulp_pos: "0 < ulp x"
  by (simp add: ulp_def)

lemma ulp_minus: "ulp (- x) = ulp x"
  by (simp add: ulp_def expo_def)

lemma fl_minus: "fl (- x) = - fl x"
  by (simp add: fl_def ulp_minus sgn_minus)

lemma abs_times_sgn: "\<bar>x::real\<bar> * sgn x = x"
  by (cases "0 \<le> x") (simp_all add: sgn_real_def)

lemma abs_sgn_real: "x \<noteq> 0 \<Longrightarrow> \<bar>sgn (x::real)\<bar> = 1"
  by (simp add: sgn_real_def)

lemma fl_error_ulp: "\<bar>fl x - x\<bar> \<le> ulp x / 2"
proof (cases "x = 0")
  case True
  then show ?thesis using ulp_pos[of 0] by (simp add: fl_def)
next
  case False
  let ?u = "ulp x"
  let ?m = "\<bar>x\<bar> / ?u"
  let ?r = "round_half_even ?m"
  have u: "0 < ?u" by (rule ulp_pos)
  have "sgn x * (of_int ?r - ?m) * ?u = sgn x * of_int ?r * ?u - (\<bar>x\<bar> * sgn x)"
    using u by (simp add: algebra_simps)
  then have "fl x - x = sgn x * (of_int ?r - ?m) * ?u"
    using False by (simp add: fl_def abs_times_sgn)
  then have "\<bar>fl x - x\<bar> = \<bar>of_int ?r - ?m\<bar> * ?u"
    using False u by (simp add: abs_mult abs_sgn_real)
  also have "\<dots> \<le> (1/2) * ?u"
    by (rule mult_right_mono[OF round_half_even_error]) (use u in simp)
  finally show ?thesis by simp
qed

lemma ulp_le:
  assumes "x \<noteq> 0"
  shows "ulp x \<le> \<bar>x\<bar> / 2 ^ 52 + 2 powi (- 1074)"
proof (cases "expo x < - 1022")
  case True
  then have "max (expo x) (- 1022) = - 1022" by auto
  then have "ulp x = 2 powi (- 1074)" by (simp add: ulp_def)
  then show ?thesis by simp
next
  case False
  then have e: "- 1022 \<le> expo x" by auto
  have "ulp x = 2 powi (expo x - 52)" using e by (simp add: ulp_def max_def)
  also have "\<dots> = 2 powi expo x / 2 ^ 52" by (simp add: power_int_diff)
  also have "\<dots> \<le> \<bar>x\<bar> / 2 ^ 52"
    using expo_bounds(1)[OF assms] by (simp add: divide_right_mono)
  finally show ?thesis by (simp add: add_increasing2)
qed

lemma fl_error: "\<bar>fl x - x\<bar> \<le> \<bar>x\<bar> / 2 ^ 53 + 2 powi (- 1075)"
proof (cases "x = 0")
  case True
  then show ?thesis by (simp add: fl_def)
next
  case False
  have "(2::real) powi (- 1074) / 2 = 2 powi (- 1075)"
    by (simp add: power_int_minus field_simps)
  then show ?thesis using fl_error_ulp[of x] ulp_le[OF False] by (simp add: field_simps)
qed

lemma tiny: "(2::real) powi (- 1075) \<le> 1 / 2 ^ 60"
proof -
  have "(2::real) powi (- 1075) = 1 / 2 ^ 1075" by (simp add: power_int_minus field_simps)
  also have "\<dots> \<le> 1 / 2 ^ 60"
    by (intro divide_left_mono power_increasing) simp_all
  finally show ?thesis .
qed

text \<open>Two forms of the bound: for operands up to 2 and up to \<open>2\<^sup>2\<^sup>3\<close>.\<close>

lemma fl_error_unit: "\<bar>x\<bar> \<le> 2 \<Longrightarrow> \<bar>fl x - x\<bar> \<le> 1 / 2 ^ 51"
proof -
  assume a: "\<bar>x\<bar> \<le> 2"
  have "\<bar>x\<bar> / 2 ^ 53 \<le> 2 / 2 ^ 53" using a by (simp add: divide_right_mono)
  then show ?thesis using fl_error[of x] tiny by simp
qed

lemma fl_error_grid: "\<bar>x\<bar> \<le> 2 ^ 23 \<Longrightarrow> \<bar>fl x - x\<bar> \<le> 1 / 2 ^ 29"
proof -
  assume a: "\<bar>x\<bar> \<le> 2 ^ 23"
  have "\<bar>x\<bar> / 2 ^ 53 \<le> 2 ^ 23 / 2 ^ 53" using a by (simp add: divide_right_mono)
  then show ?thesis using fl_error[of x] tiny by simp
qed

lemma pow2_int_less: "(2::real) powi a < 2 powi b \<Longrightarrow> a < b"
proof (rule ccontr)
  assume l: "(2::real) powi a < 2 powi b" and "\<not> a < b"
  then have "b \<le> a" by simp
  then have "(2::real) powi b \<le> 2 powi a" by (intro power_int_increasing) simp_all
  with l show False by simp
qed

lemma fl_exact:
  assumes x: "x = of_int m * 2 powi k" and m: "\<bar>m\<bar> < 2 ^ 53" and k: "- 1074 \<le> k"
  shows "fl x = x"
proof (cases "m = 0")
  case True
  then show ?thesis using x by (simp add: fl_def)
next
  case False
  have p: "0 < (2::real) powi k" by simp
  have nz: "x \<noteq> 0" using False x by simp
  have ax: "\<bar>x\<bar> = of_int \<bar>m\<bar> * 2 powi k" using x by (simp add: abs_mult)
  define e where "e = max (expo x) (- 1022) - 52"
  have ek: "e \<le> k"
  proof (cases "- 1022 \<le> expo x")
    case True
    have "of_int \<bar>m\<bar> < (2::real) ^ 53"
    proof -
      have "(of_int \<bar>m\<bar> :: real) < of_int (2 ^ 53)" using m by (simp only: of_int_less_iff)
      then show ?thesis by simp
    qed
    then have "\<bar>x\<bar> < 2 ^ 53 * 2 powi k" unfolding ax using p by (simp add: mult_strict_right_mono)
    also have "\<dots> = 2 powi (53 + k)" by (simp add: power_int_add)
    finally have "2 powi expo x < (2::real) powi (53 + k)"
      using expo_bounds(1)[OF nz] by linarith
    then have "expo x < 53 + k" by (rule pow2_int_less)
    then show ?thesis using True by (simp add: e_def max_def)
  next
    case False
    then show ?thesis using k by (simp add: e_def max_def)
  qed
  have u: "ulp x = 2 powi e" by (simp add: ulp_def e_def)
  have "\<bar>x\<bar> / ulp x = of_int \<bar>m\<bar> * (2 powi k / 2 powi e)" unfolding ax u by simp
  also have "2 powi k / 2 powi e = (2::real) powi (k - e)" by (simp add: power_int_diff)
  also have "\<dots> = 2 ^ nat (k - e)" using ek by (simp add: power_int_def)
  finally have q: "\<bar>x\<bar> / ulp x = of_int (\<bar>m\<bar> * 2 ^ nat (k - e))" by simp
  have "round_half_even (\<bar>x\<bar> / ulp x) = \<bar>m\<bar> * 2 ^ nat (k - e)"
    unfolding q by (rule round_half_even_of_int)
  then have "of_int (round_half_even (\<bar>x\<bar> / ulp x)) = \<bar>x\<bar> / ulp x" using q by simp
  then have "fl x = sgn x * (\<bar>x\<bar> / ulp x) * ulp x" using nz by (simp add: fl_def)
  also have "\<dots> = sgn x * \<bar>x\<bar>" using ulp_pos[of x] by simp
  also have "\<dots> = x" using abs_times_sgn[of x] by (simp add: mult.commute)
  finally show ?thesis .
qed

lemma fl_of_int: "\<bar>n\<bar> < 2 ^ 53 \<Longrightarrow> fl (of_int n) = of_int n"
  by (rule fl_exact[of _ n 0]) simp_all

lemma fl_half_int: "\<bar>n\<bar> < 2 ^ 53 \<Longrightarrow> fl (of_int n / 2) = of_int n / 2"
  by (rule fl_exact[of _ n "- 1"]) (simp_all add: power_int_minus)

lemma fl_Ints:
  assumes "x \<in> \<int>" "\<bar>x\<bar> < 2 ^ 53"
  shows "fl x = x"
proof -
  from assms(1) obtain n where n: "x = of_int n" by (auto elim: Ints_cases)
  have "\<bar>(of_int n :: real)\<bar> < of_int (2 ^ 53)" using assms(2) n by simp
  then have "\<bar>n\<bar> < 2 ^ 53" by (simp only: of_int_abs[symmetric] of_int_less_iff)
  then show ?thesis unfolding n by (rule fl_of_int)
qed

lemma c_int_in_range:
  assumes "\<bar>x\<bar> < 2 ^ 31"
  shows "c_int x = (if 0 \<le> x then \<lfloor>x\<rfloor> else \<lceil>x\<rceil>)"
proof (cases "0 \<le> x")
  case True
  have "x < 2147483648" using assms by (simp add: abs_less_iff)
  then have "- 2147483648 \<le> \<lfloor>x\<rfloor>" "\<lfloor>x\<rfloor> \<le> 2147483647" using True by linarith+
  then show ?thesis using True by (simp add: c_int_def Let_def)
next
  case False
  have "- 2147483648 < x" using assms by (simp add: abs_less_iff)
  then have "- 2147483648 \<le> \<lceil>x\<rceil>" "\<lceil>x\<rceil> \<le> 2147483647" using False by linarith+
  then show ?thesis using False by (simp add: c_int_def Let_def)
qed

lemma c_int_of_int: "\<bar>k\<bar> < 2 ^ 31 \<Longrightarrow> c_int (of_int k) = k"
proof -
  assume a: "\<bar>k\<bar> < 2 ^ 31"
  have "\<bar>(of_int k :: real)\<bar> < of_int (2 ^ 31)" using a by (simp only: of_int_abs[symmetric] of_int_less_iff)
  then have "\<bar>(of_int k :: real)\<bar> < 2 ^ 31" by simp
  from c_int_in_range[OF this] show ?thesis by simp
qed


subsection \<open>The rounded term of the slot index\<close>

lemma fl_half: "fl (1/2) = 1/2"
  using fl_half_int[of 1] by simp

lemma sign_half:
  assumes "Sl = 1 \<or> Sl = - 1"
  shows "d_mul Sl (1/2) = Sl / 2"
  using assms fl_half fl_minus[of "1/2"] by (auto simp: d_mul_def)

lemma half_int_exact:
  assumes "Dl \<in> \<int>" "\<bar>Dl\<bar> \<le> 2 ^ 21" "Sl = 1 \<or> Sl = - 1"
  shows "d_sub Dl (Sl / 2) = Dl - Sl / 2"
proof -
  from assms(1) obtain n where n: "Dl = of_int n" by (auto elim: Ints_cases)
  have nb: "\<bar>n\<bar> \<le> 2 ^ 21"
  proof -
    have "\<bar>(of_int n :: real)\<bar> \<le> of_int (2 ^ 21)" using assms(2) n by simp
    then show ?thesis by (simp only: of_int_abs[symmetric] of_int_le_iff)
  qed
  obtain k :: int where k: "Sl = of_int k" "k = 1 \<or> k = - 1"
  proof (cases "Sl = 1")
    case True
    then show ?thesis using that[of 1] by simp
  next
    case False
    then have "Sl = - 1" using assms(3) by simp
    then show ?thesis using that[of "- 1"] by simp
  qed
  have "\<bar>2 * n - k\<bar> < 2 ^ 53" using nb k(2) by auto
  then have f: "fl (of_int (2 * n - k) / 2) = of_int (2 * n - k) / 2" by (rule fl_half_int)
  have eq: "Dl - Sl / 2 = of_int (2 * n - k) / 2" by (simp add: n k(1) field_simps)
  show ?thesis unfolding d_sub_def eq by (rule f)
qed

text \<open>The double that is cast is within \<open>2\<^sup>-\<^sup>2\<^sup>7\<close> of the exact value.\<close>

lemma rounded_term_close:
  assumes D: "Dl \<in> \<int>" "\<bar>Dl\<bar> \<le> 2 ^ 21" and Sl: "Sl = 1 \<or> Sl = - 1"
    and Ss: "Ss = 1 \<or> Ss = - 1" and s: "\<bar>s\<bar> \<le> 1"
  shows "\<exists>q. rounded_term Dl Sl Ss (fl s) = c_int q
             \<and> \<bar>q - (Ss * s * (Dl - Sl / 2) + 1/2)\<bar> \<le> 1 / 2 ^ 27"
proof -
  define c where "c = Dl - Sl / 2"
  define y where "y = d_mul Ss (fl s)"
  define p where "p = d_mul y c"
  define q where "q = d_add p (1/2)"
  have cb: "\<bar>c\<bar> \<le> 2 ^ 21 + 1/2"
    using D(2) Sl unfolding c_def abs_le_iff by (elim disjE) simp_all
  have e1: "\<bar>fl s - s\<bar> \<le> 1 / 2 ^ 51" using s by (intro fl_error_unit) simp
  have "\<bar>fl s\<bar> \<le> 2" using e1 s unfolding abs_le_iff by simp
  then have sb: "\<bar>Ss * fl s\<bar> \<le> 2" using Ss by (auto simp: abs_mult)
  have e2: "\<bar>y - Ss * fl s\<bar> \<le> 1 / 2 ^ 51" unfolding y_def d_mul_def by (rule fl_error_unit[OF sb])
  have "y - Ss * s = (y - Ss * fl s) + Ss * (fl s - s)" by (simp add: algebra_simps)
  then have "\<bar>y - Ss * s\<bar> \<le> \<bar>y - Ss * fl s\<bar> + \<bar>Ss * (fl s - s)\<bar>" by simp
  also have "\<bar>Ss * (fl s - s)\<bar> = \<bar>fl s - s\<bar>" using Ss by (auto simp: abs_mult)
  finally have e3: "\<bar>y - Ss * s\<bar> \<le> 1 / 2 ^ 50" using e1 e2 by simp
  have "\<bar>(y - Ss * s) * c\<bar> = \<bar>y - Ss * s\<bar> * \<bar>c\<bar>" by (simp add: abs_mult)
  also have "\<dots> \<le> (1 / 2 ^ 50) * (2 ^ 21 + 1/2)"
    by (intro mult_mono e3 cb) simp_all
  also have "\<dots> \<le> 1 / 2 ^ 28" by simp
  finally have e4: "\<bar>y * c - Ss * s * c\<bar> \<le> 1 / 2 ^ 28" by (simp add: algebra_simps)
  have "\<bar>Ss * s * c\<bar> = \<bar>s\<bar> * \<bar>c\<bar>" using Ss by (auto simp: abs_mult)
  also have "\<dots> \<le> 1 * (2 ^ 21 + 1/2)" by (intro mult_mono s cb) simp_all
  finally have xb: "\<bar>Ss * s * c\<bar> \<le> 2 ^ 21 + 1/2" by simp
  have ycb: "\<bar>y * c\<bar> \<le> 2 ^ 22" using e4 xb unfolding abs_le_iff by simp
  have e5: "\<bar>p - y * c\<bar> \<le> 1 / 2 ^ 29"
    unfolding p_def d_mul_def using ycb by (intro fl_error_grid) simp
  have pb: "\<bar>p + 1/2\<bar> \<le> 2 ^ 23" using e5 ycb unfolding abs_le_iff by simp
  have e6: "\<bar>q - (p + 1/2)\<bar> \<le> 1 / 2 ^ 29"
    unfolding q_def d_add_def by (rule fl_error_grid[OF pb])
  have "\<bar>q - (Ss * s * c + 1/2)\<bar> \<le> 1 / 2 ^ 27"
    using e4 e5 e6 unfolding abs_le_iff by simp
  moreover have "rounded_term Dl Sl Ss (fl s) = c_int q"
    unfolding rounded_term_def q_def p_def y_def c_def sign_half[OF Sl] half_int_exact[OF D Sl]
    by (rule refl)
  ultimately show ?thesis unfolding c_def by blast
qed

text \<open>Truncation of a double near an exact value whose fractional part is not small.\<close>

lemma c_int_near:
  assumes q: "\<bar>q - z\<bar> \<le> 1 / 2 ^ 27" and z: "0 \<le> z" "z \<le> 2 ^ 22"
    and d: "(1::int) \<le> d" "d \<le> 2 ^ 22" "of_int d * z \<in> \<int>"
  shows "z \<notin> \<int> \<Longrightarrow> c_int q = \<lfloor>z\<rfloor>"
    and "z \<in> \<int> \<Longrightarrow> c_int q = \<lfloor>z\<rfloor> \<or> c_int q = \<lfloor>z\<rfloor> - 1"
    and "\<bar>c_int q\<bar> \<le> 2 ^ 22 + 1"
proof -
  have qr: "\<bar>q\<bar> < 2 ^ 31" using q z unfolding abs_le_iff abs_less_iff by simp
  note ci = c_int_in_range[OF qr]
  have dr: "(of_int d :: real) \<le> 2 ^ 22"
  proof -
    have "(of_int d :: real) \<le> of_int (2 ^ 22)" using d(2) by (simp only: of_int_le_iff)
    then show ?thesis by simp
  qed
  have dp: "(0::real) < of_int d" using d(1) by simp
  have inv: "1 / 2 ^ 22 \<le> 1 / (of_int d :: real)" using dr dp by (simp add: field_simps)
  show "c_int q = \<lfloor>z\<rfloor>" if nz: "z \<notin> \<int>"
  proof -
    define n where "n = \<lfloor>z\<rfloor>"
    from d(3) obtain M where M: "of_int d * z = of_int M" by (auto elim: Ints_cases)
    have "of_int n \<noteq> z" using nz by (metis Ints_of_int)
    then have nl: "of_int n < z" "z < of_int n + 1" unfolding n_def by linarith+
    have "of_int d * of_int n < of_int d * z" "of_int d * z < of_int d * (of_int n + 1)"
      using nl dp by simp_all
    then have "(of_int (d * n) :: real) < of_int M" "(of_int M :: real) < of_int (d * (n + 1))"
      unfolding M by simp_all
    then have "d * n < M" "M < d * (n + 1)" by (simp_all only: of_int_less_iff)
    then have "d * n + 1 \<le> M" "M \<le> d * (n + 1) - 1" by simp_all
    then have "(of_int (d * n + 1) :: real) \<le> of_int M" "(of_int M :: real) \<le> of_int (d * (n + 1) - 1)"
      by (simp_all only: of_int_le_iff)
    then have "of_int d * of_int n + 1 \<le> of_int d * z" "of_int d * z \<le> of_int d * (of_int n + 1) - 1"
      unfolding M by simp_all
    then have "of_int n + 1 / of_int d \<le> z" "z \<le> of_int n + 1 - 1 / of_int d"
      using dp by (simp_all add: field_simps)
    then have "of_int n + 1 / 2 ^ 22 \<le> z" "z \<le> of_int n + 1 - 1 / 2 ^ 22"
      using inv by linarith+
    then have b: "of_int n < q" "q < of_int n + 1" using q unfolding abs_le_iff by simp_all
    have "0 \<le> n" using z(1) by (simp add: n_def)
    then have "(0::real) \<le> of_int n" by simp
    then have "0 \<le> q" using b(1) by linarith
    moreover have "\<lfloor>q\<rfloor> = n" using b by (simp add: floor_eq_iff)
    ultimately show ?thesis using ci by (simp add: n_def)
  qed
  show "c_int q = \<lfloor>z\<rfloor> \<or> c_int q = \<lfloor>z\<rfloor> - 1" if iz: "z \<in> \<int>"
  proof -
    from iz obtain n where n: "z = of_int n" by (auto elim: Ints_cases)
    have n0: "0 \<le> n" using z(1) n by simp
    have b: "of_int n - 1 < q" "q < of_int n + 1" using q unfolding n abs_le_iff by simp_all
    show ?thesis
    proof (cases "0 \<le> q")
      case True
      have "\<lfloor>q\<rfloor> = n \<or> \<lfloor>q\<rfloor> = n - 1" using b by (simp add: floor_eq_iff) linarith
      then show ?thesis using ci True n by simp
    next
      case False
      then have "(of_int n :: real) < of_int 1" using b(1) by simp
      then have "n < 1" by (simp only: of_int_less_iff)
      then have "n = 0" using n0 by simp
      then have "- 1 < q" "q < 0" using b False by simp_all
      then have "\<lceil>q\<rceil> = 0" by (simp add: ceiling_eq_iff)
      then show ?thesis using ci False n \<open>n = 0\<close> by simp
    qed
  qed
  show "\<bar>c_int q\<bar> \<le> 2 ^ 22 + 1"
  proof -
    have "- 1 < q" "q < 2 ^ 22 + 1" using q z unfolding abs_le_iff by simp_all
    then have "- 1 \<le> \<lfloor>q\<rfloor>" "\<lfloor>q\<rfloor> \<le> 2 ^ 22 + 1" "- 1 \<le> \<lceil>q\<rceil>" "\<lceil>q\<rceil> \<le> 2 ^ 22 + 1"
      by (simp_all add: le_floor_iff floor_le_iff ceiling_le_iff le_ceiling_iff)
    then show ?thesis using ci by (simp add: abs_le_iff)
  qed
qed

lemma c_int_abs_le:
  assumes "\<bar>q\<bar> < 2 ^ 31"
  shows "\<bar>of_int (c_int q)\<bar> \<le> \<bar>q\<bar>"
proof (cases "0 \<le> q")
  case True
  then have "0 \<le> \<lfloor>q\<rfloor>" by simp
  then have "\<bar>(of_int \<lfloor>q\<rfloor> :: real)\<bar> = of_int \<lfloor>q\<rfloor>" by simp
  then show ?thesis using True c_int_in_range[OF assms] by simp
next
  case False
  then have "\<lceil>q\<rceil> \<le> 0" by (simp add: ceiling_le_iff)
  then have "\<bar>(of_int \<lceil>q\<rceil> :: real)\<bar> = - of_int \<lceil>q\<rceil>" by simp
  moreover have "q \<le> of_int \<lceil>q\<rceil>" by simp
  ultimately show ?thesis using False c_int_in_range[OF assms] by simp
qed

lemma Ints_bound_int:
  fixes x :: real
  assumes "x \<in> \<int>" "\<bar>x\<bar> \<le> of_int b"
  obtains n where "x = of_int n" "\<bar>n\<bar> \<le> b"
proof -
  from assms(1) obtain n where n: "x = of_int n" by (auto elim: Ints_cases)
  have "(of_int \<bar>n\<bar> :: real) \<le> of_int b" using assms(2) n by simp
  then have "\<bar>n\<bar> \<le> b" by (simp only: of_int_le_iff)
  with n show ?thesis by (rule that)
qed

text \<open>The operations on integers of the size of grid coordinates are exact.\<close>

lemma d_ops_exact:
  assumes "x \<in> \<int>" "y \<in> \<int>" "\<bar>x\<bar> \<le> 2 ^ 24" "\<bar>y\<bar> \<le> 2 ^ 24"
  shows "d_sub x y = x - y" "d_add x y = x + y" "d_mul x y = x * y"
proof -
  have a: "\<bar>x - y\<bar> < 2 ^ 53" "\<bar>x + y\<bar> < 2 ^ 53" using assms(3,4) unfolding abs_le_iff abs_less_iff by simp_all
  have "\<bar>x * y\<bar> = \<bar>x\<bar> * \<bar>y\<bar>" by (simp add: abs_mult)
  also have "\<dots> \<le> 2 ^ 24 * 2 ^ 24" by (intro mult_mono assms) simp_all
  finally have m: "\<bar>x * y\<bar> < 2 ^ 53" by simp
  show "d_sub x y = x - y" unfolding d_sub_def using assms(1,2) a(1) by (intro fl_Ints) auto
  show "d_add x y = x + y" unfolding d_add_def using assms(1,2) a(2) by (intro fl_Ints) auto
  show "d_mul x y = x * y" unfolding d_mul_def using assms(1,2) m by (intro fl_Ints) auto
qed

lemma outer_exact:
  assumes D: "Dl \<in> \<int>" "\<bar>Dl\<bar> \<le> 2 ^ 21" "Ds \<in> \<int>" "\<bar>Ds\<bar> \<le> 2 ^ 21"
    and S: "Sl = 1 \<or> Sl = - 1" "Ss = 1 \<or> Ss = - 1" and T: "\<bar>T\<bar> \<le> 2 ^ 22"
  shows "of_int (c_int (d_add (d_mul (d_mul Sl 2) Dl) (d_sub (d_mul Ss Ds) (of_int T))))
           = Sl * 2 * Dl + (Ss * Ds - of_int T)"
proof -
  have Tr: "\<bar>(of_int T :: real)\<bar> \<le> 2 ^ 22"
  proof -
    have "(of_int \<bar>T\<bar> :: real) \<le> of_int (2 ^ 22)" using T by (simp only: of_int_le_iff)
    then show ?thesis by simp
  qed
  have Si: "Sl \<in> \<int>" "Ss \<in> \<int>" "\<bar>Sl\<bar> = 1" "\<bar>Ss\<bar> = 1" using S by auto
  have 1: "d_mul Sl 2 = Sl * 2" using Si by (intro d_ops_exact) simp_all
  have a2: "\<bar>Sl * 2\<bar> \<le> 2 ^ 24" "Sl * 2 \<in> \<int>" using Si by (simp_all add: abs_mult)
  have 2: "d_mul (Sl * 2) Dl = Sl * 2 * Dl" using a2 D by (intro d_ops_exact) simp_all
  have 3: "d_mul Ss Ds = Ss * Ds" using Si D by (intro d_ops_exact) simp_all
  have a3: "Ss * Ds \<in> \<int>" "\<bar>Ss * Ds\<bar> \<le> 2 ^ 21" using Si D by (simp_all add: abs_mult)
  have 4: "d_sub (Ss * Ds) (of_int T) = Ss * Ds - of_int T"
    using a3 Tr by (intro d_ops_exact) simp_all
  have a4: "Sl * 2 * Dl \<in> \<int>" "\<bar>Sl * 2 * Dl\<bar> \<le> 2 ^ 22" using Si D by (simp_all add: abs_mult)
  have a5: "Ss * Ds - of_int T \<in> \<int>" "\<bar>Ss * Ds - of_int T\<bar> \<le> 2 ^ 23"
    using a3 Tr abs_triangle_ineq4[of "Ss * Ds" "of_int T"] by simp_all
  have 5: "d_add (Sl * 2 * Dl) (Ss * Ds - of_int T) = Sl * 2 * Dl + (Ss * Ds - of_int T)"
    using a4 a5 by (intro d_ops_exact) simp_all
  have i: "Sl * 2 * Dl + (Ss * Ds - of_int T) \<in> \<int>" using a4 a5 by simp
  have b: "\<bar>Sl * 2 * Dl + (Ss * Ds - of_int T)\<bar> \<le> of_int (2 ^ 24)"
    using abs_triangle_ineq[of "Sl * 2 * Dl" "Ss * Ds - of_int T"] a4(2) a5(2) by simp
  from Ints_bound_int[OF i b] obtain N where N: "Sl * 2 * Dl + (Ss * Ds - of_int T) = of_int N"
    "\<bar>N\<bar> \<le> 2 ^ 24" by blast
  have "c_int (of_int N) = N" using N(2) by (intro c_int_of_int) simp
  then show ?thesis unfolding 1 2 3 4 5 N(1) by simp
qed

lemma grid_diff:
  fixes a b :: real
  assumes "a \<in> \<int>" "b \<in> \<int>" "\<bar>a\<bar> \<le> 2 ^ 20" "\<bar>b\<bar> \<le> 2 ^ 20"
  shows "a - b \<in> \<int>" "\<bar>a - b\<bar> \<le> 2 ^ 21" "d_sub a b = a - b"
proof -
  show "a - b \<in> \<int>" using assms by simp
  show "\<bar>a - b\<bar> \<le> 2 ^ 21" using assms(3,4) abs_triangle_ineq4[of a b] by simp
  show "d_sub a b = a - b" using assms by (intro d_ops_exact) simp_all
qed

text \<open>
  The exact product, for a ray that is not degenerate and a cell ahead of the viewpoint:
  the ratio of the two extents of the ray times the distance to the middle of the cell.
\<close>

lemma exact_term:
  fixes A B Dl :: real
  assumes "B \<noteq> 0" "Sl = (if B < 0 then - 1 else 1)" "Ss = (if A < 0 then - 1 else 1)"
  shows "Ss * (A / B) * (Dl - Sl * (1/2)) = \<bar>A\<bar> / \<bar>B\<bar> * (Sl * Dl - 1/2)"
  using assms by (auto simp: field_simps)

lemma slot_core:
  fixes Ol Os El Es Pl Ps :: real
  assumes I: "Ol \<in> \<int>" "Os \<in> \<int>" "El \<in> \<int>" "Es \<in> \<int>" "Pl \<in> \<int>" "Ps \<in> \<int>"
    and R: "\<bar>Ol\<bar> \<le> 2 ^ 20" "\<bar>Os\<bar> \<le> 2 ^ 20" "\<bar>El\<bar> \<le> 2 ^ 20" "\<bar>Es\<bar> \<le> 2 ^ 20"
      "\<bar>Pl\<bar> \<le> 2 ^ 20" "\<bar>Ps\<bar> \<le> 2 ^ 20"
    and L: "\<bar>Es - Os\<bar> \<le> \<bar>El - Ol\<bar>"
    and Dl: "Dl = Pl - Ol" and Ds: "Ds = Ps - Os"
    and Sl: "Sl = (if Ol > El then - 1 else 1)" and Ss: "Ss = (if Os > Es then - 1 else 1)"
    and s: "s = (if El = Ol then 0 else (Es - Os) / (El - Ol))"
    and x: "x = Ss * s * (Dl - Sl * (1/2))"
    and T: "T = rounded_term Dl Sl Ss (fl s)"
  shows "of_int (active_pixel_index Ol Os Pl Ps El Es Dl Ds Sl Ss (fl s))
           = (if Dl = 0 \<and> Ds = 0 then 0 else Sl * 2 * Dl + (Ss * Ds - of_int T))"
    and "1 \<le> Sl * Dl \<Longrightarrow> x + 1/2 \<notin> \<int> \<Longrightarrow> T = round x"
    and "1 \<le> Sl * Dl \<Longrightarrow> x + 1/2 \<in> \<int> \<Longrightarrow> T = round x \<or> T = round x - 1"
proof -
  have D: "Dl \<in> \<int>" "\<bar>Dl\<bar> \<le> 2 ^ 21" "Ds \<in> \<int>" "\<bar>Ds\<bar> \<le> 2 ^ 21"
    unfolding Dl Ds using grid_diff I R by simp_all
  have S: "Sl = 1 \<or> Sl = - 1" "Ss = 1 \<or> Ss = - 1" by (simp_all add: Sl Ss)
  have sb: "\<bar>s\<bar> \<le> 1" using L by (simp add: s)
  have xe: "x = Ss * s * (Dl - Sl / 2)" by (simp add: x)
  from rounded_term_close[OF D(1,2) S sb] obtain q
    where q: "T = c_int q" "\<bar>q - (x + 1/2)\<bar> \<le> 1 / 2 ^ 27"
    unfolding T xe by blast
  have cb: "\<bar>Dl - Sl / 2\<bar> \<le> 2 ^ 21 + 1/2"
    using D(2) S(1) unfolding abs_le_iff by (elim disjE) simp_all
  have "\<bar>x\<bar> = \<bar>s\<bar> * \<bar>Dl - Sl / 2\<bar>" using S(2) by (auto simp: xe abs_mult)
  also have "\<dots> \<le> 1 * (2 ^ 21 + 1/2)" by (intro mult_mono sb cb) simp_all
  finally have xb: "\<bar>x\<bar> \<le> 2 ^ 21 + 1/2" by simp
  have qb: "\<bar>q\<bar> \<le> 2 ^ 22" using q(2) xb unfolding abs_le_iff by simp
  then have "\<bar>q\<bar> < 2 ^ 31" by simp
  from c_int_abs_le[OF this] have "\<bar>(of_int T :: real)\<bar> \<le> of_int (2 ^ 22)" using qb q(1) by simp
  then have "(of_int \<bar>T\<bar> :: real) \<le> of_int (2 ^ 22)" by simp
  then have Tb: "\<bar>T\<bar> \<le> 2 ^ 22" by (simp only: of_int_le_iff)
  show "of_int (active_pixel_index Ol Os Pl Ps El Es Dl Ds Sl Ss (fl s))
           = (if Dl = 0 \<and> Ds = 0 then 0 else Sl * 2 * Dl + (Ss * Ds - of_int T))"
    using outer_exact[OF D S Tb] by (simp add: active_pixel_index_def T)
  have ahead: "0 \<le> x \<and> (\<exists>d::int. 1 \<le> d \<and> d \<le> 2 ^ 22 \<and> of_int d * (x + 1/2) \<in> \<int>)"
    if a: "1 \<le> Sl * Dl"
  proof (cases "El = Ol")
    case True
    then have "x = 0" by (simp add: x s)
    moreover have "of_int 2 * ((0::real) + 1/2) \<in> \<int>" by simp
    ultimately show ?thesis by (intro conjI exI[of _ 2]) simp_all
  next
    case False
    define A where "A = Es - Os"
    define B where "B = El - Ol"
    have Bn: "B \<noteq> 0" using False by (simp add: B_def)
    have AB: "A \<in> \<int>" "B \<in> \<int>" "\<bar>B\<bar> \<le> of_int (2 ^ 21)"
      using grid_diff I R by (simp_all add: A_def B_def)
    have x1: "x = \<bar>A\<bar> / \<bar>B\<bar> * (Sl * Dl - 1/2)"
      unfolding x using False
      by (subst exact_term[symmetric, of B Sl Ss A]) (auto simp: s Sl Ss A_def B_def)
    have "0 \<le> \<bar>A\<bar> / \<bar>B\<bar>" by simp
    moreover have "0 \<le> Sl * Dl - 1/2" using a by simp
    ultimately have x0: "0 \<le> x" unfolding x1 by (rule mult_nonneg_nonneg)
    from Ints_bound_int[OF AB(2,3)] obtain b where b: "B = of_int b" "\<bar>b\<bar> \<le> 2 ^ 21" by blast
    have bn: "b \<noteq> 0" using Bn b(1) by auto
    have "of_int (2 * \<bar>b\<bar>) * (x + 1/2) = \<bar>A\<bar> * (2 * (Sl * Dl) - 1) + \<bar>B\<bar>"
      unfolding x1 using Bn by (simp add: b(1) field_simps)
    moreover have "\<bar>A\<bar> * (2 * (Sl * Dl) - 1) + \<bar>B\<bar> \<in> \<int>"
      using AB(1,2) D(1) S(1) by (intro Ints_add Ints_mult Ints_diff Ints_abs) auto
    ultimately have "of_int (2 * \<bar>b\<bar>) * (x + 1/2) \<in> \<int>" by simp
    moreover have "1 \<le> 2 * \<bar>b\<bar>" "2 * \<bar>b\<bar> \<le> 2 ^ 22" using bn b(2) by simp_all
    ultimately show ?thesis using x0 by blast
  qed
  have zb: "x + 1/2 \<le> 2 ^ 22" using xb unfolding abs_le_iff by simp
  show "T = round x" if a: "1 \<le> Sl * Dl" and n: "x + 1/2 \<notin> \<int>"
  proof -
    from ahead[OF a] obtain d :: int where d: "0 \<le> x" "1 \<le> d" "d \<le> 2 ^ 22"
      "of_int d * (x + 1/2) \<in> \<int>" by blast
    have "0 \<le> x + 1/2" using d(1) by simp
    from c_int_near(1)[OF q(2) this zb d(2,3,4) n] show ?thesis by (simp add: q(1) round_def)
  qed
  show "T = round x \<or> T = round x - 1" if a: "1 \<le> Sl * Dl" and n: "x + 1/2 \<in> \<int>"
  proof -
    from ahead[OF a] obtain d :: int where d: "0 \<le> x" "1 \<le> d" "d \<le> 2 ^ 22"
      "of_int d * (x + 1/2) \<in> \<int>" by blast
    have "0 \<le> x + 1/2" using d(1) by simp
    from c_int_near(2)[OF q(2) this zb d(2,3,4) n] show ?thesis by (simp add: q(1) round_def)
  qed
qed


subsection \<open>The slot index on grid points\<close>

lemma fl_zero: "fl 0 = 0"
  by (simp add: fl_def)

lemma float_point_grid: "grid_point X \<Longrightarrow> float_point X = X"
proof -
  assume g: "grid_point X"
  then have "\<bar>fst X\<bar> < 2 ^ 53" "\<bar>snd X\<bar> < 2 ^ 53" by (simp_all add: grid_point_def)
  then have "fl (fst X) = fst X" "fl (snd X) = snd X"
    using g by (auto simp: grid_point_def intro: fl_Ints)
  then show ?thesis by (simp add: float_point_def)
qed

lemma grid_rows:
  assumes "grid_point O'" "grid_point E"
  shows "long_axis_is_rows O' E = spec_rows O' E"
  using assms grid_diff(3)[of "fst E" "fst O'"] grid_diff(3)[of "snd E" "snd O'"]
  by (simp add: long_axis_is_rows_def spec_rows_def grid_point_def)

lemma grid_comp:
  assumes "grid_point O'" "grid_point E"
  shows "long_comp O' E X = spec_long O' E X" "short_comp O' E X = spec_short O' E X"
  using grid_rows[OF assms] by (simp_all add: long_comp_def short_comp_def spec_long_def spec_short_def)

lemma grid_comp_Ints:
  assumes "grid_point X"
  shows "spec_long O' E X \<in> \<int>" "spec_short O' E X \<in> \<int>"
    "\<bar>spec_long O' E X\<bar> \<le> 2 ^ 20" "\<bar>spec_short O' E X\<bar> \<le> 2 ^ 20"
  using assms by (simp_all add: spec_long_def spec_short_def grid_point_def)

lemma spec_extents: "\<bar>spec_short O' E E - spec_short O' E O'\<bar> \<le> \<bar>spec_long O' E E - spec_long O' E O'\<bar>"
  by (simp add: spec_long_def spec_short_def spec_rows_def)

text \<open>On grid points the locals of the entry point are the exact ones, but for the slope.\<close>

lemma grid_locals:
  assumes "grid_point O'" "grid_point P" "grid_point E"
  shows "cell_Dl O' P E = spec_Dl O' P E" "cell_Ds O' P E = spec_Ds O' P E"
    "ray_Sl O' E = spec_Sl O' E" "ray_Ss O' E = spec_Ss O' E"
    "ray_slope O' E = fl (spec_slope O' E)"
proof -
  note c = grid_comp[OF assms(1,3)]
  note i = grid_comp_Ints[OF assms(1), of O' E] grid_comp_Ints[OF assms(2), of O' E]
    grid_comp_Ints[OF assms(3), of O' E]
  show "cell_Dl O' P E = spec_Dl O' P E" unfolding cell_Dl_def spec_Dl_def c
    by (intro grid_diff(3) i)
  show "cell_Ds O' P E = spec_Ds O' P E" unfolding cell_Ds_def spec_Ds_def c
    by (intro grid_diff(3) i)
  show "ray_Sl O' E = spec_Sl O' E" by (simp add: ray_Sl_def spec_Sl_def c)
  show "ray_Ss O' E = spec_Ss O' E" by (simp add: ray_Ss_def spec_Ss_def c)
  have d: "d_sub (spec_short O' E E) (spec_short O' E O') = spec_short O' E E - spec_short O' E O'"
    "d_sub (spec_long O' E E) (spec_long O' E O') = spec_long O' E E - spec_long O' E O'"
    by (intro grid_diff(3) i)+
  show "ray_slope O' E = fl (spec_slope O' E)"
  proof (cases "spec_long O' E E = spec_long O' E O'")
    case True
    then show ?thesis by (simp add: ray_slope_def spec_slope_def c fl_zero)
  next
    case False
    then show ?thesis unfolding ray_slope_def spec_slope_def c d_div_def d by simp
  qed
qed

lemma grid_slot:
  assumes g: "grid_point O'" "grid_point P" "grid_point E"
  shows "of_int (py_active_pixel_index O' P E) = spec_slot_index (\<lambda>x. truncated_term O' P E) O' P E"
    and "1 \<le> spec_Sl O' E * spec_Dl O' P E \<Longrightarrow> spec_term O' P E + 1/2 \<notin> \<int>
           \<Longrightarrow> truncated_term O' P E = round (spec_term O' P E)"
    and "1 \<le> spec_Sl O' E * spec_Dl O' P E \<Longrightarrow> spec_term O' P E + 1/2 \<in> \<int>
           \<Longrightarrow> truncated_term O' P E = round (spec_term O' P E)
               \<or> truncated_term O' P E = round (spec_term O' P E) - 1"
proof -
  note f = float_point_grid[OF g(1)] float_point_grid[OF g(2)] float_point_grid[OF g(3)]
  note l = grid_locals[OF g]
  note c = grid_comp[OF g(1,3)]
  note i = grid_comp_Ints[OF g(1), of O' E] grid_comp_Ints[OF g(2), of O' E]
    grid_comp_Ints[OF g(3), of O' E]
  have T: "truncated_term O' P E
             = rounded_term (spec_Dl O' P E) (spec_Sl O' E) (spec_Ss O' E) (fl (spec_slope O' E))"
    by (simp add: truncated_term_def f l)
  have py: "py_active_pixel_index O' P E
      = active_pixel_index (spec_long O' E O') (spec_short O' E O') (spec_long O' E P)
          (spec_short O' E P) (spec_long O' E E) (spec_short O' E E) (spec_Dl O' P E)
          (spec_Ds O' P E) (spec_Sl O' E) (spec_Ss O' E) (fl (spec_slope O' E))"
    by (simp add: py_active_pixel_index_def f l c)
  note core = slot_core[OF i(1,2) i(9,10) i(5,6) i(3,4) i(11,12) i(7,8) spec_extents
      spec_Dl_def spec_Ds_def spec_Sl_def spec_Ss_def spec_slope_def spec_term_def T]
  show "of_int (py_active_pixel_index O' P E) = spec_slot_index (\<lambda>x. truncated_term O' P E) O' P E"
    unfolding py core(1) by (simp add: spec_slot_index_def)
  show "truncated_term O' P E = round (spec_term O' P E)"
    if "1 \<le> spec_Sl O' E * spec_Dl O' P E" "spec_term O' P E + 1/2 \<notin> \<int>"
    using core(2)[OF that] .
  show "truncated_term O' P E = round (spec_term O' P E)
               \<or> truncated_term O' P E = round (spec_term O' P E) - 1"
    if "1 \<le> spec_Sl O' E * spec_Dl O' P E" "spec_term O' P E + 1/2 \<in> \<int>"
    using core(3)[OF that] .
qed


subsection \<open>Evaluation of the slot index\<close>

text \<open>
  The definitions that compute on doubles; \<open>bit_length\<close> is unfolded on numerals only.
\<close>

lemma bit_length_numeral:
  "bit_length (Suc 0) = Suc 0"
  "bit_length (numeral k) = Suc (bit_length (numeral k div 2))"
  by (simp_all add: bit_length_pos bit_length_0)

lemmas d_eval = d_add_def d_sub_def d_mul_def
  d_div_def fl_def ulp_def expo_def round_half_even_def bit_length_0 bit_length_numeral
  c_int_def Let_def

lemmas local_eval = cell_Dl_def cell_Ds_def ray_Sl_def ray_Ss_def ray_slope_def long_comp_def
  short_comp_def

lemmas spec_eval = spec_slot_index_def spec_term_def spec_rows_def spec_long_def spec_short_def
  spec_Dl_def spec_Ds_def spec_Sl_def spec_Ss_def spec_slope_def round_def

lemma float_points:
  "float_point (0, 0) = (0, 0)" "float_point (0, -2) = (0, -2)" "float_point (1, 2) = (1, 2)"
  "float_point (7, 12) = (7, 12)" "float_point (13, 23) = (13, 23)"
  by (simp_all add: float_point_def d_eval)

lemma slot_behind: "py_active_pixel_index (0, 0) (0, -2) (1, 2) = -4"
proof -
  have r: "long_axis_is_rows (0, 0) (1, 2) = False"
    by (simp add: long_axis_is_rows_def d_eval)
  have l: "cell_Dl (0, 0) (0, -2) (1, 2) = -2" "cell_Ds (0, 0) (0, -2) (1, 2) = 0"
    "ray_Sl (0, 0) (1, 2) = 1" "ray_Ss (0, 0) (1, 2) = 1" "ray_slope (0, 0) (1, 2) = 1/2"
    by (simp_all add: local_eval r d_eval)
  show ?thesis
    by (simp add: py_active_pixel_index_def float_points l long_comp_def short_comp_def r
        active_pixel_index_def rounded_term_def d_eval)
qed

lemma slot_tie: "py_active_pixel_index (0, 0) (7, 12) (13, 23) = 25"
proof -
  have r: "long_axis_is_rows (0, 0) (13, 23) = False"
    by (simp add: long_axis_is_rows_def d_eval)
  have l: "cell_Dl (0, 0) (7, 12) (13, 23) = 12" "cell_Ds (0, 0) (7, 12) (13, 23) = 7"
    "ray_Sl (0, 0) (13, 23) = 1" "ray_Ss (0, 0) (13, 23) = 1"
    "ray_slope (0, 0) (13, 23) = 5091025665723169 / 9007199254740992"
    by (simp_all add: local_eval r d_eval)
  have t: "rounded_term 12 1 1 (5091025665723169 / 9007199254740992) = 6"
    by (simp add: rounded_term_def d_eval)
  show ?thesis
    by (simp add: py_active_pixel_index_def float_points l long_comp_def short_comp_def r
        active_pixel_index_def t d_eval)
qed


text \<open>
  Claim C3, as stated: for every viewpoint, endpoint and target cell the indexer returns
  \<open>Sl\<cdot>2\<cdot>Dl + (Ss\<cdot>Ds - round (Ss\<cdot>slope\<cdot>(Dl - Sl\<cdot>0.5)))\<close> with rounding to the nearest
  integer. It fails for a cell behind the viewpoint: with \<open>O = (0,0)\<close>, \<open>E = (1,2)\<close> and
  \<open>P = (0,-2)\<close> the product is \<open>-1.25\<close>, whose nearest integer is \<open>-1\<close>, while the
  cast \<^verbatim>\<open><int>(-1.25 + .5)\<close> truncates \<open>-0.75\<close> to \<open>0\<close>. It also fails for a cell ahead of
  the viewpoint when the product is halfway between two integers: with \<open>O = (0,0)\<close>,
  \<open>E = (13,23)\<close> and \<open>P = (7,12)\<close> the exact product is \<open>13/23 \<cdot> 11.5 = 6.5\<close>, but the
  double nearest to \<open>13/23\<close> lies below it, the computed sum is just below \<open>7\<close> and the cast
  gives \<open>6\<close>: slot 25 instead of 24.
\<close>


theorem active_pixel_index_round_counterexample:
  "py_active_pixel_index (0, 0) (0, -2) (1, 2) = -4
   \<and> spec_slot_index round (0, 0) (0, -2) (1, 2) = -3
   \<and> py_active_pixel_index (0, 0) (7, 12) (13, 23) = 25
   \<and> spec_slot_index round (0, 0) (7, 12) (13, 23) = 24"
proof (intro conjI)
  show "py_active_pixel_index (0, 0) (0, -2) (1, 2) = -4" by (rule slot_behind)
  show "spec_slot_index round (0, 0) (0, -2) (1, 2) = -3" by (simp add: spec_eval)
  show "py_active_pixel_index (0, 0) (7, 12) (13, 23) = 25" by (rule slot_tie)
  show "spec_slot_index round (0, 0) (7, 12) (13, 23) = 24" by (simp add: spec_eval)
qed


text \<open>
  Claim C3, amended: for a viewpoint \<open>O\<close>, a ray endpoint \<open>E\<close> and a target cell \<open>P\<close> with
  integer coordinates of magnitude at most \<open>2\<^sup>2\<^sup>0\<close>, the indexer returns
  \<open>Sl\<cdot>2\<cdot>Dl + (Ss\<cdot>Ds - T)\<close>, and \<open>0\<close> when \<open>Dl\<close> and \<open>Ds\<close> are both zero, where \<open>T\<close> is the cast
  \<^verbatim>\<open><int>(Ss*slope*(Dl-Sl*.5)+.5)\<close> as the code computes it in double precision
  (\<open>truncated_term\<close>): a truncation toward zero, not a rounding to the nearest integer.
  For a cell ahead of the viewpoint along the long axis, \<open>Sl\<cdot>Dl \<ge> 1\<close>, \<open>T\<close> is the nearest
  integer of the exact product \<open>Ss\<cdot>slope\<cdot>(Dl - Sl\<cdot>0.5)\<close>, so that the slot is the one of the
  stated formula, unless the product lies halfway between two integers; there \<open>T\<close> is one
  of the two, and the slot is the one of the formula or the next one.
\<close>


theorem active_pixel_index_slot:
  assumes "grid_point O'" "grid_point P" "grid_point E"
  shows "of_int (py_active_pixel_index O' P E)
           = spec_slot_index (\<lambda>x. truncated_term O' P E) O' P E
         \<and> (spec_Dl O' P E = 0 \<and> spec_Ds O' P E = 0 \<longrightarrow> py_active_pixel_index O' P E = 0)
         \<and> (1 \<le> spec_Sl O' E * spec_Dl O' P E \<and> spec_term O' P E + 1/2 \<notin> \<int> \<longrightarrow>
              of_int (py_active_pixel_index O' P E) = spec_slot_index round O' P E)
         \<and> (1 \<le> spec_Sl O' E * spec_Dl O' P E \<and> spec_term O' P E + 1/2 \<in> \<int> \<longrightarrow>
              of_int (py_active_pixel_index O' P E) = spec_slot_index round O' P E
              \<or> of_int (py_active_pixel_index O' P E) = spec_slot_index round O' P E + 1)"
proof -
  note s = grid_slot[OF assms]
  have a: "of_int (py_active_pixel_index O' P E)
           = spec_slot_index (\<lambda>x. truncated_term O' P E) O' P E" by (rule s(1))
  have b: "py_active_pixel_index O' P E = 0" if "spec_Dl O' P E = 0 \<and> spec_Ds O' P E = 0"
  proof -
    have "(of_int (py_active_pixel_index O' P E) :: real) = 0"
      using that unfolding a by (simp add: spec_slot_index_def)
    then show ?thesis by simp
  qed
  have c: "of_int (py_active_pixel_index O' P E) = spec_slot_index round O' P E"
    if "1 \<le> spec_Sl O' E * spec_Dl O' P E \<and> spec_term O' P E + 1/2 \<notin> \<int>"
    using s(2) that unfolding a by (simp add: spec_slot_index_def)
  have d: "of_int (py_active_pixel_index O' P E) = spec_slot_index round O' P E
              \<or> of_int (py_active_pixel_index O' P E) = spec_slot_index round O' P E + 1"
    if t: "1 \<le> spec_Sl O' E * spec_Dl O' P E \<and> spec_term O' P E + 1/2 \<in> \<int>"
  proof -
    have nz: "\<not> (spec_Dl O' P E = 0 \<and> spec_Ds O' P E = 0)" using t by auto
    from s(3) t have "truncated_term O' P E = round (spec_term O' P E)
               \<or> truncated_term O' P E = round (spec_term O' P E) - 1" by simp
    then show ?thesis unfolding a using nz by (auto simp: spec_slot_index_def)
  qed
  show ?thesis using a b c d by blast
qed

theorem active_pixel_index_slot_witness:
  "grid_point (0, 0) \<and> grid_point (1, 2) \<and> grid_point (7, 12) \<and> grid_point (13, 23)
   \<and> 1 \<le> spec_Sl (0, 0) (1, 2) * spec_Dl (0, 0) (1, 2) (1, 2)
   \<and> spec_term (0, 0) (1, 2) (1, 2) + 1/2 \<notin> \<int>
   \<and> spec_slot_index round (0, 0) (1, 2) (1, 2) = 4
   \<and> py_active_pixel_index (0, 0) (1, 2) (1, 2) = 4
   \<and> 1 \<le> spec_Sl (0, 0) (13, 23) * spec_Dl (0, 0) (7, 12) (13, 23)
   \<and> spec_term (0, 0) (7, 12) (13, 23) + 1/2 \<in> \<int>
   \<and> spec_slot_index round (0, 0) (7, 12) (13, 23) = 24
   \<and> (py_active_pixel_index (0, 0) (7, 12) (13, 23) = 24
        \<or> py_active_pixel_index (0, 0) (7, 12) (13, 23) = 25)
   \<and> py_active_pixel_index (0, 0) (0, 0) (1, 2) = 0"
proof -
  have g: "grid_point (0, 0)" "grid_point (1, 2)" "grid_point (7, 12)" "grid_point (13, 23)"
    by (simp_all add: grid_point_def)
  have a1: "1 \<le> spec_Sl (0, 0) (1, 2) * spec_Dl (0, 0) (1, 2) (1, 2)" by (simp add: spec_eval)
  have t1: "spec_term (0, 0) (1, 2) (1, 2) + 1/2 = 5/4" by (simp add: spec_eval)
  have n1: "spec_term (0, 0) (1, 2) (1, 2) + 1/2 \<notin> \<int>"
  proof
    assume "spec_term (0, 0) (1, 2) (1, 2) + 1/2 \<in> \<int>"
    then obtain k :: int where "(5/4 :: real) = of_int k" unfolding t1 by (auto elim: Ints_cases)
    then have "of_int (4 * k) = (of_int 5 :: real)" by simp
    then have "4 * k = 5" by (simp only: of_int_eq_iff)
    then show False by presburger
  qed
  have s1: "spec_slot_index round (0, 0) (1, 2) (1, 2) = 4" by (simp add: spec_eval)
  have a2: "1 \<le> spec_Sl (0, 0) (13, 23) * spec_Dl (0, 0) (7, 12) (13, 23)"
    by (simp add: spec_eval)
  have t2: "spec_term (0, 0) (7, 12) (13, 23) + 1/2 = 7" by (simp add: spec_eval)
  have n2: "spec_term (0, 0) (7, 12) (13, 23) + 1/2 \<in> \<int>" unfolding t2 by simp
  have s2: "spec_slot_index round (0, 0) (7, 12) (13, 23) = 24" by (simp add: spec_eval)
  have z: "spec_Dl (0, 0) (0, 0) (1, 2) = 0 \<and> spec_Ds (0, 0) (0, 0) (1, 2) = 0"
    by (simp add: spec_eval)
  from active_pixel_index_slot[OF g(1) g(2) g(2)] a1 n1 s1
  have r1: "py_active_pixel_index (0, 0) (1, 2) (1, 2) = 4" by simp
  from active_pixel_index_slot[OF g(1) g(3) g(4)] a2 n2 s2
  have r2: "py_active_pixel_index (0, 0) (7, 12) (13, 23) = 24
        \<or> py_active_pixel_index (0, 0) (7, 12) (13, 23) = 25" by auto
  from active_pixel_index_slot[OF g(1) g(1) g(2)] z
  have r3: "py_active_pixel_index (0, 0) (0, 0) (1, 2) = 0" by simp
  show ?thesis using g a1 n1 s1 r1 a2 n2 s2 r2 r3 by simp
qed

subsection \<open>Results and array accesses\<close>

lemma rbind_Inr [simp]: "rbind (Inr x) f = f x"
  by (simp add: rbind_def)

lemma rbind_Inl [simp]: "rbind (Inl e) f = Inl e"
  by (simp add: rbind_def)

lemma py_index_nat: "k < n \<Longrightarrow> py_index n (int k) = Inr k"
  by (simp add: py_index_def)

lemma py_nth_nat: "k < length xs \<Longrightarrow> py_nth xs (int k) = Inr (xs ! k)"
  by (simp add: py_nth_def py_index_nat)

lemma py_set_nat: "k < length xs \<Longrightarrow> py_set xs (int k) v = Inr (xs[k := v])"
  by (simp add: py_set_def py_index_nat)

lemma distance_step_nat:
  assumes "i < length I" "length J = length I" "length (fst out) = length I"
    "length (snd out) = length I"
  shows "distance_step vi vj cs I J (int i) out =
           Inr ((fst out)[i := of_int ((vi - I ! i)\<^sup>2 + (vj - J ! i)\<^sup>2) * (cs * cs)],
                (snd out)[i := sqrt (of_int ((vi - I ! i)\<^sup>2 + (vj - J ! i)\<^sup>2) * (cs * cs))])"
  using assms by (simp add: distance_step_def Let_def py_nth_nat py_set_nat)

lemma distance_loop_from:
  assumes "length J = length I" "length (fst out) = length I" "length (snd out) = length I"
    "i \<le> length I"
  shows "\<exists>out'. distance_loop vi vj cs I J (int i) out = Inr out'
           \<and> length (fst out') = length I \<and> length (snd out') = length I
           \<and> (\<forall>k<length I. snd out' ! k =
                 (if k < i then snd out ! k
                  else sqrt (of_int ((vi - I ! k)\<^sup>2 + (vj - J ! k)\<^sup>2) * (cs * cs))))"
  using assms
proof (induction "length I - i" arbitrary: i out)
  case 0
  then have "i = length I" by simp
  then show ?case using "0.prems" by (subst distance_loop.simps) simp
next
  case (Suc m)
  then have lt: "i < length I" by simp
  let ?out = "((fst out)[i := of_int ((vi - I ! i)\<^sup>2 + (vj - J ! i)\<^sup>2) * (cs * cs)],
                (snd out)[i := sqrt (of_int ((vi - I ! i)\<^sup>2 + (vj - J ! i)\<^sup>2) * (cs * cs))])"
  have step: "distance_step vi vj cs I J (int i) out = Inr ?out"
    using distance_step_nat[OF lt Suc.prems(1,2,3)] .
  have m: "m = length I - Suc i" using Suc.hyps(2) by simp
  obtain out' where o: "distance_loop vi vj cs I J (int (Suc i)) ?out = Inr out'"
    "length (fst out') = length I" "length (snd out') = length I"
    "\<forall>k<length I. snd out' ! k =
       (if k < Suc i then snd ?out ! k
        else sqrt (of_int ((vi - I ! k)\<^sup>2 + (vj - J ! k)\<^sup>2) * (cs * cs)))"
    using Suc.hyps(1)[OF m Suc.prems(1), of ?out] Suc.prems lt by auto
  have "distance_loop vi vj cs I J (int i) out = Inr out'"
    using lt step o(1) by (subst distance_loop.simps) (simp add: add.commute)
  moreover have "\<forall>k<length I. snd out' ! k =
       (if k < i then snd out ! k
        else sqrt (of_int ((vi - I ! k)\<^sup>2 + (vj - J ! k)\<^sup>2) * (cs * cs)))"
  proof (intro allI impI)
    fix k assume k: "k < length I"
    show "snd out' ! k = (if k < i then snd out ! k
        else sqrt (of_int ((vi - I ! k)\<^sup>2 + (vj - J ! k)\<^sup>2) * (cs * cs)))"
      using o(4) k Suc.prems(3) lt by (cases "k = i") (auto simp: less_Suc_eq)
  qed
  ultimately show ?case using o(2,3) by blast
qed

text \<open>
  Claim C9, as stated: the computed distance of every cell equals
  \<open>sqrt ((row - vr)\<^sup>2 + (col - vc)\<^sup>2)\<close>, in grid units. It fails as soon as the cell size is
  not 1: \<^verbatim>\<open>compute_distances\<close> multiplies the squared grid distance by \<^verbatim>\<open>cell_size\<close> squared
  before taking the root. With viewpoint \<open>(0,0)\<close>, one cell at \<open>(0,1)\<close> and cell size 2 the
  result is 2, and the grid distance is 1.
\<close>

theorem compute_distances_cell_size_counterexample:
  "compute_distances 0 0 2 [0] [1] [0] [0] = Inr ([4], [2])
   \<and> sqrt (of_int ((0 - 0)\<^sup>2 + (1 - 0)\<^sup>2)) = (1::real)"
  by (simp add: compute_distances_def distance_loop.simps distance_step_def py_nth_def py_set_def
        py_index_def)

text \<open>
  Claim C9, amended: when the four arrays have one length, \<^verbatim>\<open>compute_distances\<close> returns
  and the distance of every cell is \<open>sqrt (((vi - I[k])\<^sup>2 + (vj - J[k])\<^sup>2) \<cdot> cell_size\<^sup>2)\<close>, that
  is \<open>\<bar>cell_size\<bar>\<close> times the Euclidean grid distance; it is the grid distance itself when
  the cell size is 1. (Over the reals: the rounding of the floating-point square root is
  outside the model.)
\<close>

theorem compute_distances_scaled:
  assumes "length J = length I" "length dsq0 = length I" "length dist0 = length I"
  shows "\<exists>dsq dist. compute_distances vi vj cell_size I J dsq0 dist0 = Inr (dsq, dist)
           \<and> length dist = length I
           \<and> (\<forall>k<length I.
                 dist ! k = sqrt (of_int ((vi - I ! k)\<^sup>2 + (vj - J ! k)\<^sup>2) * cell_size\<^sup>2)
               \<and> dist ! k = \<bar>cell_size\<bar> * sqrt (of_int ((I ! k - vi)\<^sup>2 + (J ! k - vj)\<^sup>2))
               \<and> (cell_size = 1 \<longrightarrow>
                    dist ! k = sqrt (of_int ((I ! k - vi)\<^sup>2 + (J ! k - vj)\<^sup>2))))"
proof -
  obtain out' where o: "distance_loop vi vj cell_size I J (int 0) (dsq0, dist0) = Inr out'"
    "length (snd out') = length I"
    "\<forall>k<length I. snd out' ! k =
       (if k < 0 then snd (dsq0, dist0) ! k
        else sqrt (of_int ((vi - I ! k)\<^sup>2 + (vj - J ! k)\<^sup>2) * (cell_size * cell_size)))"
    using distance_loop_from[of J I "(dsq0, dist0)" 0 vi vj cell_size] assms by auto
  have sym: "(vi - a)\<^sup>2 + (vj - b)\<^sup>2 = (a - vi)\<^sup>2 + (b - vj)\<^sup>2" for a b :: int
    by (simp add: power2_commute)
  have "\<forall>k<length I.
                 snd out' ! k = sqrt (of_int ((vi - I ! k)\<^sup>2 + (vj - J ! k)\<^sup>2) * cell_size\<^sup>2)
               \<and> snd out' ! k = \<bar>cell_size\<bar> * sqrt (of_int ((I ! k - vi)\<^sup>2 + (J ! k - vj)\<^sup>2))
               \<and> (cell_size = 1 \<longrightarrow>
                    snd out' ! k = sqrt (of_int ((I ! k - vi)\<^sup>2 + (J ! k - vj)\<^sup>2)))"
    using o(3) by (auto simp: power2_eq_square[symmetric] real_sqrt_mult sym mult.commute)
  then show ?thesis
    using o(1,2) by (cases out') (auto simp: compute_distances_def)
qed

theorem compute_distances_scaled_witness:
  "length [2::int] = length [0::int] \<and> length [0::real] = length [0::int]
   \<and> compute_distances 0 0 1 [0] [2] [0] [0] = Inr ([4], [2])"
proof -
  have h: "length [2::int] = length [0::int]" "length [0::real] = length [0::int]" by simp_all
  obtain dsq dist where d: "compute_distances 0 0 1 [0] [2] [0] [0] = Inr (dsq, dist)"
    "dist ! 0 = sqrt (of_int ((0 - [0] ! 0)\<^sup>2 + (0 - [2] ! 0)\<^sup>2) * 1\<^sup>2)"
    using compute_distances_scaled[OF h(1) h(2) h(2), of 0 0 1] by auto
  have "compute_distances 0 0 1 [0] [2] [0] [0] = Inr ([4], [2])"
    by (simp add: compute_distances_def distance_loop.simps distance_step_def py_nth_def py_set_def
        py_index_def)
  with d h show ?thesis by simp
qed

subsection \<open>The radius filter of the Angle Classifier\<close>

lemma cell_angles_coords [simp]:
  "cell_row (cell_angles vp r c) = r" "cell_col (cell_angles vp r c) = c"
  by (simp_all add: cell_angles_def Let_def)

lemma cell_records_coords:
  "map (\<lambda>x. (cell_row x, cell_col x)) (cell_records shape vp md) =
     concat (map (\<lambda>r. concat (map (\<lambda>c. if skip_cell vp md r c then [] else [(r, c)])
        [0 .. snd shape - 1])) [0 .. fst shape - 1])"
  by (simp add: cell_records_def map_concat o_def if_distrib[of "map _"] cong: if_cong)

lemma zip_cells:
  "(case list_extreme_cell_angles shape vp md of (mins, ctrs, maxs, I, J) \<Rightarrow> zip I J)
     = map (\<lambda>x. (cell_row x, cell_col x)) (cell_records shape vp md)"
  by (simp add: list_extreme_cell_angles_def Let_def zip_map_map) (induction "cell_records shape vp md"; simp add: zip_same_conv_map)

lemma classifier_radius_filter:
  assumes "0 \<le> max_dist"
  shows "set (case list_extreme_cell_angles (rows, cols) (vr, vc) max_dist of
                (mins, ctrs, maxs, I, J) \<Rightarrow> zip I J)
         = {(r, c). 0 \<le> r \<and> r < rows \<and> 0 \<le> c \<and> c < cols
              \<and> \<not> (of_int ((r - vr)\<^sup>2 + (c - vc)\<^sup>2) > max_dist\<^sup>2 \<or> (r = vr \<and> c = vc))}"
  using assms
  by (auto simp: zip_cells cell_records_coords skip_cell_def max_dist_sq_def Let_def split: if_splits)

text \<open>
  Claim C8: for the viewpoint at corner \<open>(0,0)\<close> of an 8\<times>8 grid with maximum radius 3 the
  classifier lists exactly the cells with \<open>row\<^sup>2 + col\<^sup>2 \<le> 9\<close> other than \<open>(0,0)\<close>, ten cells in
  row-major order; a cell is left out if and only if its squared distance exceeds the
  squared radius or it is the viewpoint.
\<close>

theorem classifier_radius_scenario:
  "(case list_extreme_cell_angles (8, 8) (0, 0) 3 of (mins, ctrs, maxs, I, J) \<Rightarrow> zip I J)
     = [(0,1), (0,2), (0,3), (1,0), (1,1), (1,2), (2,0), (2,1), (2,2), (3,0)]
   \<and> set (case list_extreme_cell_angles (8, 8) (0, 0) 3 of (mins, ctrs, maxs, I, J) \<Rightarrow> zip I J)
     = {(r, c). 0 \<le> r \<and> r < 8 \<and> 0 \<le> c \<and> c < 8 \<and> r\<^sup>2 + c\<^sup>2 \<le> 9 \<and> (r, c) \<noteq> (0, 0)}"
proof
  show "(case list_extreme_cell_angles (8, 8) (0, 0) 3 of (mins, ctrs, maxs, I, J) \<Rightarrow> zip I J)
     = [(0,1), (0,2), (0,3), (1,0), (1,1), (1,2), (2,0), (2,1), (2,2), (3,0)]"
    by (simp add: zip_cells cell_records_coords skip_cell_def max_dist_sq_def Let_def upto_rec1)
  have "real_of_int (r\<^sup>2 + c\<^sup>2) > 3\<^sup>2 \<longleftrightarrow> \<not> r\<^sup>2 + c\<^sup>2 \<le> 9" for r c :: int
  proof -
    have "real_of_int (r\<^sup>2 + c\<^sup>2) > real_of_int 9 \<longleftrightarrow> r\<^sup>2 + c\<^sup>2 > 9"
      by (rule of_int_less_iff)
    then show ?thesis by auto
  qed
  then show "set (case list_extreme_cell_angles (8, 8) (0, 0) 3 of
                    (mins, ctrs, maxs, I, J) \<Rightarrow> zip I J)
     = {(r, c). 0 \<le> r \<and> r < 8 \<and> 0 \<le> c \<and> c < 8 \<and> r\<^sup>2 + c\<^sup>2 \<le> 9 \<and> (r, c) \<noteq> (0, 0)}"
    using classifier_radius_filter[of 3 8 8 0 0] by auto
qed

subsection \<open>The angular interval of a cell\<close>

lemma floor_ratio_zero:
  fixes a p :: real
  assumes "0 \<le> a" "a < p"
  shows "\<lfloor>a / p\<rfloor> = 0"
proof -
  have p: "0 < p" using assms by linarith
  have "0 \<le> a / p" "a / p < 1" using assms p by (simp_all add: field_simps)
  then show ?thesis by (simp add: floor_eq_iff)
qed

lemma norm_angle_id:
  assumes "0 \<le> a" "a < 2 * pi"
  shows "norm_angle a = a"
proof -
  have "(a + 2 * pi) / (2 * pi) = a / (2 * pi) + 1"
    by (simp add: field_simps)
  then have "\<lfloor>(a + 2 * pi) / (2 * pi)\<rfloor> = 1"
    using floor_ratio_zero[OF assms] by simp
  then show ?thesis by (simp add: norm_angle_def float_mod_def two_pi_def)
qed

lemma norm_angle_shift:
  assumes "- (2 * pi) \<le> a" "a < 0"
  shows "norm_angle a = a + 2 * pi"
proof -
  have "\<lfloor>(a + 2 * pi) / (2 * pi)\<rfloor> = 0"
    using assms by (intro floor_ratio_zero) auto
  then show ?thesis by (simp add: norm_angle_def float_mod_def two_pi_def)
qed

text \<open>The normalised angle of a direction, by quadrant.\<close>

lemma angle_right_up:
  assumes "0 < x" "0 \<le> y"
  shows "norm_angle (atan2 y x) = arctan (y / x)"
proof -
  have "0 \<le> arctan (y / x)" using assms by (simp add: zero_le_arctan_iff)
  moreover have "arctan (y / x) < 2 * pi"
    using arctan_ubound[of "y / x"] pi_gt_zero by linarith
  ultimately show ?thesis using assms by (simp add: atan2_def norm_angle_id)
qed

lemma angle_right_down:
  assumes "0 < x" "y < 0"
  shows "norm_angle (atan2 y x) = arctan (y / x) + 2 * pi"
proof -
  have "y / x < 0" using assms by (simp add: divide_neg_pos)
  then have "arctan (y / x) < 0" by (simp add: arctan_less_zero_iff)
  moreover have "- (2 * pi) \<le> arctan (y / x)"
    using arctan_lbound[of "y / x"] pi_gt_zero by linarith
  ultimately show ?thesis using assms by (simp add: atan2_def norm_angle_shift)
qed

lemma angle_left:
  assumes "x < 0"
  shows "norm_angle (atan2 y x) = arctan (y / x) + pi"
proof (cases "0 \<le> y")
  case True
  have "0 \<le> arctan (y / x) + pi" "arctan (y / x) + pi < 2 * pi"
    using arctan_lbound[of "y / x"] arctan_ubound[of "y / x"] pi_gt_zero by linarith+
  then show ?thesis using assms True by (simp add: atan2_def norm_angle_id)
next
  case False
  have "0 < y / x" using assms False by (simp add: divide_neg_neg)
  then have "0 < arctan (y / x)" by (simp add: zero_less_arctan_iff)
  then have "- (2 * pi) \<le> arctan (y / x) - pi" "arctan (y / x) - pi < 0"
    using arctan_ubound[of "y / x"] pi_gt_zero by linarith+
  then show ?thesis using assms False by (simp add: atan2_def norm_angle_shift)
qed

lemma angle_up: "0 < y \<Longrightarrow> norm_angle (atan2 y 0) = pi / 2"
  using pi_gt_zero by (simp add: atan2_def norm_angle_id)

lemma angle_down: "y < 0 \<Longrightarrow> norm_angle (atan2 y 0) = 3 * pi / 2"
proof -
  assume "y < 0"
  moreover have "norm_angle (- (pi / 2)) = - (pi / 2) + 2 * pi"
    using pi_gt_zero by (intro norm_angle_shift) auto
  ultimately show ?thesis by (simp add: atan2_def)
qed

text \<open>The quarter-turn index \<^verbatim>\<open><int>(4. * angle / two_pi)\<close>.\<close>

lemma quarter_index:
  assumes "of_int k * (pi / 2) \<le> a" "a < (of_int k + 1) * (pi / 2)" "0 \<le> k" "k \<le> 3"
  shows "c_int (4 * a / two_pi) = k"
proof -
  have e: "4 * a / two_pi = a / (pi / 2)" by (simp add: two_pi_def)
  have "of_int k \<le> a / (pi / 2)" "a / (pi / 2) < of_int k + 1"
    using assms pi_gt_zero by (simp_all add: field_simps)
  then have f: "\<lfloor>a / (pi / 2)\<rfloor> = k" by (simp add: floor_eq_iff)
  have "0 \<le> a / (pi / 2)" using \<open>of_int k \<le> a / (pi / 2)\<close> assms(3) by linarith
  then show ?thesis unfolding e c_int_def using f assms(3,4) by simp
qed


lemma extreme_cell_points_nth:
    "extreme_cell_points ! Suc 0 = - (1/2)" "extreme_cell_points ! Suc (Suc 0) = - (1/2)"
    "extreme_cell_points ! Suc (Suc (Suc 0)) = - (1/2)" "extreme_cell_points ! 0 = 1/2" "extreme_cell_points ! 1 = - (1/2)" "extreme_cell_points !
    2 = - (1/2)" "extreme_cell_points ! 3 = - (1/2)" "extreme_cell_points ! 4 = 1/2"
    "extreme_cell_points ! 5 = 1/2" "extreme_cell_points ! 6 = - (1/2)" "extreme_cell_points !
    7 = - (1/2)" "extreme_cell_points ! 8 = 1/2" "extreme_cell_points ! 9 = 1/2"
    "extreme_cell_points ! 10 = 1/2" "extreme_cell_points ! 11 = - (1/2)" "extreme_cell_points
    ! 12 = - (1/2)" "extreme_cell_points ! 13 = 1/2" "extreme_cell_points ! 14 = 1/2"
    "extreme_cell_points ! 15 = - (1/2)" "extreme_cell_points ! 16 = - (1/2)"
    "extreme_cell_points ! 17 = 1/2" "extreme_cell_points ! 18 = 1/2" "extreme_cell_points !
    19 = 1/2" "extreme_cell_points ! 20 = - (1/2)" "extreme_cell_points ! 21 = - (1/2)"
    "extreme_cell_points ! 22 = 1/2" "extreme_cell_points ! 23 = 1/2" "extreme_cell_points !
    24 = - (1/2)" "extreme_cell_points ! 25 = - (1/2)" "extreme_cell_points ! 26 = - (1/2)"
    "extreme_cell_points ! 27 = 1/2" "extreme_cell_points ! 28 = 1/2" "extreme_cell_points !
    29 = - (1/2)" "extreme_cell_points ! 30 = - (1/2)" "extreme_cell_points ! 31 = 1/2"
  by (simp_all add: extreme_cell_points_def)

lemma cell_angles_fields:
  assumes "cell_sector (vr, vc) row col = k"
  shows "min_angle (cell_angles (vr, vc) row col) =
           norm_angle (atan2 (- (of_int (row - vr) + extreme_cell_points ! nat (k * 4)))
                             (of_int (col - vc) + extreme_cell_points ! (nat (k * 4) + 1)))"
    and "center_angle (cell_angles (vr, vc) row col) =
           norm_angle (atan2 (- of_int (row - vr)) (of_int (col - vc)))"
    and "max_angle (cell_angles (vr, vc) row col) =
           norm_angle (atan2 (- (of_int (row - vr) + extreme_cell_points ! (nat (k * 4) + 2)))
                             (of_int (col - vc) + extreme_cell_points ! (nat (k * 4) + 2 + 1)))"
  using assms by (simp_all add: cell_angles_def Let_def)

lemma frac_le_pos:
  fixes a b c d :: real
  assumes "0 < b" "0 < d" "a * d \<le> c * b"
  shows "a / b \<le> c / d"
  using assms by (simp add: field_simps)

lemma frac_le_neg:
  fixes a b c d :: real
  assumes "b < 0" "d < 0" "a * d \<le> c * b"
  shows "a / b \<le> c / d"
  using assms by (simp add: field_simps)

lemma sector_E: "row = vr \<Longrightarrow> vc < col \<Longrightarrow> cell_sector (vr, vc) row col = 0"
  using quarter_index[of 0 0] pi_gt_zero
  by (simp add: cell_sector_def Let_def angle_right_up)

lemma sector_NE:
  assumes "row < vr" "vc < col"
  shows "cell_sector (vr, vc) row col = 1"
proof -
  let ?y = "- real_of_int (row - vr)" and ?x = "real_of_int (col - vc)"
  have p: "0 < ?y" "0 < ?x" using assms by simp_all
  have a: "norm_angle (atan2 ?y ?x) = arctan (?y / ?x)"
    using p by (intro angle_right_up) auto
  have "0 < ?y / ?x" using p by (intro divide_pos_pos)
  then have "0 < arctan (?y / ?x)" by (simp only: zero_less_arctan_iff)
  then have "c_int (4 * arctan (?y / ?x) / two_pi) = 0"
    using arctan_ubound[of "?y / ?x"] by (intro quarter_index) auto
  moreover have "(row - vr) * (col - vc) \<noteq> 0" using assms by simp
  ultimately show ?thesis using a by (simp add: cell_sector_def Let_def)
qed

lemma sector_N: "row < vr \<Longrightarrow> col = vc \<Longrightarrow> cell_sector (vr, vc) row col = 2"
  using quarter_index[of 1 "pi / 2"] pi_gt_zero
  by (simp add: cell_sector_def Let_def angle_up)

lemma sector_NW:
  assumes "row < vr" "col < vc"
  shows "cell_sector (vr, vc) row col = 3"
proof -
  let ?y = "- real_of_int (row - vr)" and ?x = "real_of_int (col - vc)"
  have p: "0 < ?y" "?x < 0" using assms by simp_all
  have a: "norm_angle (atan2 ?y ?x) = arctan (?y / ?x) + pi"
    using p by (intro angle_left) auto
  have "?y / ?x < 0" using p by (intro divide_pos_neg)
  then have "arctan (?y / ?x) < 0" by (simp only: arctan_less_zero_iff)
  then have "c_int (4 * (arctan (?y / ?x) + pi) / two_pi) = 1"
    using arctan_lbound[of "?y / ?x"] by (intro quarter_index) auto
  moreover have "(row - vr) * (col - vc) \<noteq> 0" using assms by simp
  ultimately show ?thesis using a by (simp add: cell_sector_def Let_def)
qed

lemma sector_W: "row = vr \<Longrightarrow> col < vc \<Longrightarrow> cell_sector (vr, vc) row col = 4"
  using quarter_index[of 2 pi] pi_gt_zero
  by (simp add: cell_sector_def Let_def angle_left)

lemma sector_SW:
  assumes "vr < row" "col < vc"
  shows "cell_sector (vr, vc) row col = 5"
proof -
  let ?y = "- real_of_int (row - vr)" and ?x = "real_of_int (col - vc)"
  have p: "?y < 0" "?x < 0" using assms by simp_all
  have a: "norm_angle (atan2 ?y ?x) = arctan (?y / ?x) + pi"
    using p by (intro angle_left) auto
  have "0 < ?y / ?x" using p by (intro divide_neg_neg)
  then have "0 < arctan (?y / ?x)" by (simp only: zero_less_arctan_iff)
  then have "c_int (4 * (arctan (?y / ?x) + pi) / two_pi) = 2"
    using arctan_ubound[of "?y / ?x"] by (intro quarter_index) auto
  moreover have "(row - vr) * (col - vc) \<noteq> 0" using assms by simp
  ultimately show ?thesis using a by (simp add: cell_sector_def Let_def)
qed

lemma sector_S: "vr < row \<Longrightarrow> col = vc \<Longrightarrow> cell_sector (vr, vc) row col = 6"
  using quarter_index[of 3 "3 * pi / 2"] pi_gt_zero
  by (simp add: cell_sector_def Let_def angle_down)

lemma sector_SE:
  assumes "vr < row" "vc < col"
  shows "cell_sector (vr, vc) row col = 7"
proof -
  let ?y = "- real_of_int (row - vr)" and ?x = "real_of_int (col - vc)"
  have p: "?y < 0" "0 < ?x" using assms by simp_all
  have a: "norm_angle (atan2 ?y ?x) = arctan (?y / ?x) + 2 * pi"
    using p by (intro angle_right_down) auto
  have "?y / ?x < 0" using p by (intro divide_neg_pos)
  then have "arctan (?y / ?x) < 0" by (simp only: arctan_less_zero_iff)
  then have "c_int (4 * (arctan (?y / ?x) + 2 * pi) / two_pi) = 3"
    using arctan_lbound[of "?y / ?x"] by (intro quarter_index) auto
  moreover have "(row - vr) * (col - vc) \<noteq> 0" using assms by simp
  ultimately show ?thesis using a by (simp add: cell_sector_def Let_def)
qed


text \<open>The eight sectors: the corner angles bracket the centre angle.\<close>

lemma interval_E:
  assumes "row = vr" "vc < col"
  shows "center_angle (cell_angles (vr, vc) row col) = 0"
    and "0 \<le> max_angle (cell_angles (vr, vc) row col)"
    and "max_angle (cell_angles (vr, vc) row col) < min_angle (cell_angles (vr, vc) row col)"
proof -
  let ?dr = "real_of_int (row - vr)" and ?dc = "real_of_int (col - vc)"
  have p: "?dr = 0" "1 \<le> ?dc" using assms by simp_all
  have mn: "min_angle (cell_angles (vr, vc) row col) = arctan ((- (?dr + 1/2)) / (?dc + - (1/2))) + 2 * pi"
  proof -
    have "min_angle (cell_angles (vr, vc) row col) = norm_angle (atan2 (- (?dr + 1/2)) (?dc + - (1/2)))"
      by (simp add: cell_angles_fields[OF sector_E[OF assms]] extreme_cell_points_nth)
    also have "\<dots> = arctan ((- (?dr + 1/2)) / (?dc + - (1/2))) + 2 * pi"
      using p by (intro angle_right_down) simp_all
    finally show ?thesis .
  qed
  have ce: "center_angle (cell_angles (vr, vc) row col) = arctan ((- ?dr) / (?dc))"
  proof -
    have "center_angle (cell_angles (vr, vc) row col) = norm_angle (atan2 (- ?dr) (?dc))"
      by (simp add: cell_angles_fields[OF sector_E[OF assms]] extreme_cell_points_nth)
    also have "\<dots> = arctan ((- ?dr) / (?dc))"
      using p by (intro angle_right_up) simp_all
    finally show ?thesis .
  qed
  have mx: "max_angle (cell_angles (vr, vc) row col) = arctan ((- (?dr + - (1/2))) / (?dc + - (1/2)))"
  proof -
    have "max_angle (cell_angles (vr, vc) row col) = norm_angle (atan2 (- (?dr + - (1/2))) (?dc + - (1/2)))"
      by (simp add: cell_angles_fields[OF sector_E[OF assms]] extreme_cell_points_nth)
    also have "\<dots> = arctan ((- (?dr + - (1/2))) / (?dc + - (1/2)))"
      using p by (intro angle_right_up) simp_all
    finally show ?thesis .
  qed
  show "center_angle (cell_angles (vr, vc) row col) = 0" unfolding ce using p by simp
  have "0 \<le> (- (?dr + - (1/2))) / (?dc + - (1/2))" using p by (intro divide_nonneg_nonneg) simp_all
  then show "0 \<le> max_angle (cell_angles (vr, vc) row col)" unfolding mx by (simp only: zero_le_arctan_iff)
  show "max_angle (cell_angles (vr, vc) row col) < min_angle (cell_angles (vr, vc) row col)"
    unfolding mx mn using arctan_ubound[of "(- (?dr + - (1/2))) / (?dc + - (1/2))"] arctan_lbound[of "(- (?dr + 1/2)) / (?dc + - (1/2))"] pi_gt_zero
    by linarith
qed

lemma interval_NE:
  assumes "row < vr" "vc < col"
  shows "min_angle (cell_angles (vr, vc) row col) \<le> center_angle (cell_angles (vr, vc) row col)"
    and "center_angle (cell_angles (vr, vc) row col) \<le> max_angle (cell_angles (vr, vc) row col)"
proof -
  let ?dr = "real_of_int (row - vr)" and ?dc = "real_of_int (col - vc)"
  have p: "?dr \<le> - 1" "1 \<le> ?dc" using assms by simp_all
  have mn: "min_angle (cell_angles (vr, vc) row col) = arctan ((- (?dr + 1/2)) / (?dc + 1/2))"
  proof -
    have "min_angle (cell_angles (vr, vc) row col) = norm_angle (atan2 (- (?dr + 1/2)) (?dc + 1/2))"
      by (simp add: cell_angles_fields[OF sector_NE[OF assms]] extreme_cell_points_nth)
    also have "\<dots> = arctan ((- (?dr + 1/2)) / (?dc + 1/2))"
      using p by (intro angle_right_up) simp_all
    finally show ?thesis .
  qed
  have ce: "center_angle (cell_angles (vr, vc) row col) = arctan ((- ?dr) / (?dc))"
  proof -
    have "center_angle (cell_angles (vr, vc) row col) = norm_angle (atan2 (- ?dr) (?dc))"
      by (simp add: cell_angles_fields[OF sector_NE[OF assms]] extreme_cell_points_nth)
    also have "\<dots> = arctan ((- ?dr) / (?dc))"
      using p by (intro angle_right_up) simp_all
    finally show ?thesis .
  qed
  have mx: "max_angle (cell_angles (vr, vc) row col) = arctan ((- (?dr + - (1/2))) / (?dc + - (1/2)))"
  proof -
    have "max_angle (cell_angles (vr, vc) row col) = norm_angle (atan2 (- (?dr + - (1/2))) (?dc + - (1/2)))"
      by (simp add: cell_angles_fields[OF sector_NE[OF assms]] extreme_cell_points_nth)
    also have "\<dots> = arctan ((- (?dr + - (1/2))) / (?dc + - (1/2)))"
      using p by (intro angle_right_up) simp_all
    finally show ?thesis .
  qed
  have "(- (?dr + 1/2)) / (?dc + 1/2) \<le> (- ?dr) / (?dc)"
    using p by (intro frac_le_pos) (auto simp: algebra_simps diff_divide_distrib add_divide_distrib)
  then show "min_angle (cell_angles (vr, vc) row col) \<le> center_angle (cell_angles (vr, vc) row col)"
    unfolding mn ce by (simp only: arctan_le_iff add_le_cancel_right)
  have "(- ?dr) / (?dc) \<le> (- (?dr + - (1/2))) / (?dc + - (1/2))"
    using p by (intro frac_le_pos) (auto simp: algebra_simps diff_divide_distrib add_divide_distrib)
  then show "center_angle (cell_angles (vr, vc) row col) \<le> max_angle (cell_angles (vr, vc) row col)"
    unfolding mx ce by (simp only: arctan_le_iff add_le_cancel_right)
qed

lemma interval_N:
  assumes "row < vr" "col = vc"
  shows "min_angle (cell_angles (vr, vc) row col) \<le> center_angle (cell_angles (vr, vc) row col)"
    and "center_angle (cell_angles (vr, vc) row col) \<le> max_angle (cell_angles (vr, vc) row col)"
proof -
  let ?dr = "real_of_int (row - vr)" and ?dc = "real_of_int (col - vc)"
  have p: "?dr \<le> - 1" "?dc = 0" using assms by simp_all
  have mn: "min_angle (cell_angles (vr, vc) row col) = arctan ((- (?dr + 1/2)) / (?dc + 1/2))"
  proof -
    have "min_angle (cell_angles (vr, vc) row col) = norm_angle (atan2 (- (?dr + 1/2)) (?dc + 1/2))"
      by (simp add: cell_angles_fields[OF sector_N[OF assms]] extreme_cell_points_nth)
    also have "\<dots> = arctan ((- (?dr + 1/2)) / (?dc + 1/2))"
      using p by (intro angle_right_up) simp_all
    finally show ?thesis .
  qed
  have ce: "center_angle (cell_angles (vr, vc) row col) = pi / 2"
  proof -
    have "center_angle (cell_angles (vr, vc) row col) = norm_angle (atan2 (- ?dr) (?dc))"
      by (simp add: cell_angles_fields[OF sector_N[OF assms]] extreme_cell_points_nth)
    also have "\<dots> = pi / 2"
      using p angle_up[of "- ?dr"] by simp
    finally show ?thesis .
  qed
  have mx: "max_angle (cell_angles (vr, vc) row col) = arctan ((- (?dr + 1/2)) / (?dc + - (1/2))) + pi"
  proof -
    have "max_angle (cell_angles (vr, vc) row col) = norm_angle (atan2 (- (?dr + 1/2)) (?dc + - (1/2)))"
      by (simp add: cell_angles_fields[OF sector_N[OF assms]] extreme_cell_points_nth)
    also have "\<dots> = arctan ((- (?dr + 1/2)) / (?dc + - (1/2))) + pi"
      using p by (intro angle_left) simp_all
    finally show ?thesis .
  qed
  show "min_angle (cell_angles (vr, vc) row col) \<le> center_angle (cell_angles (vr, vc) row col)"
    unfolding mn ce using arctan_ubound[of "(- (?dr + 1/2)) / (?dc + 1/2)"] by linarith
  show "center_angle (cell_angles (vr, vc) row col) \<le> max_angle (cell_angles (vr, vc) row col)"
    unfolding mx ce using arctan_lbound[of "(- (?dr + 1/2)) / (?dc + - (1/2))"] by linarith
qed

lemma interval_NW:
  assumes "row < vr" "col < vc"
  shows "min_angle (cell_angles (vr, vc) row col) \<le> center_angle (cell_angles (vr, vc) row col)"
    and "center_angle (cell_angles (vr, vc) row col) \<le> max_angle (cell_angles (vr, vc) row col)"
proof -
  let ?dr = "real_of_int (row - vr)" and ?dc = "real_of_int (col - vc)"
  have p: "?dr \<le> - 1" "?dc \<le> - 1" using assms by simp_all
  have mn: "min_angle (cell_angles (vr, vc) row col) = arctan ((- (?dr + - (1/2))) / (?dc + 1/2)) + pi"
  proof -
    have "min_angle (cell_angles (vr, vc) row col) = norm_angle (atan2 (- (?dr + - (1/2))) (?dc + 1/2))"
      by (simp add: cell_angles_fields[OF sector_NW[OF assms]] extreme_cell_points_nth)
    also have "\<dots> = arctan ((- (?dr + - (1/2))) / (?dc + 1/2)) + pi"
      using p by (intro angle_left) simp_all
    finally show ?thesis .
  qed
  have ce: "center_angle (cell_angles (vr, vc) row col) = arctan ((- ?dr) / (?dc)) + pi"
  proof -
    have "center_angle (cell_angles (vr, vc) row col) = norm_angle (atan2 (- ?dr) (?dc))"
      by (simp add: cell_angles_fields[OF sector_NW[OF assms]] extreme_cell_points_nth)
    also have "\<dots> = arctan ((- ?dr) / (?dc)) + pi"
      using p by (intro angle_left) simp_all
    finally show ?thesis .
  qed
  have mx: "max_angle (cell_angles (vr, vc) row col) = arctan ((- (?dr + 1/2)) / (?dc + - (1/2))) + pi"
  proof -
    have "max_angle (cell_angles (vr, vc) row col) = norm_angle (atan2 (- (?dr + 1/2)) (?dc + - (1/2)))"
      by (simp add: cell_angles_fields[OF sector_NW[OF assms]] extreme_cell_points_nth)
    also have "\<dots> = arctan ((- (?dr + 1/2)) / (?dc + - (1/2))) + pi"
      using p by (intro angle_left) simp_all
    finally show ?thesis .
  qed
  have "(- (?dr + - (1/2))) / (?dc + 1/2) \<le> (- ?dr) / (?dc)"
    using p by (intro frac_le_neg) (auto simp: algebra_simps diff_divide_distrib add_divide_distrib)
  then show "min_angle (cell_angles (vr, vc) row col) \<le> center_angle (cell_angles (vr, vc) row col)"
    unfolding mn ce by (simp only: arctan_le_iff add_le_cancel_right)
  have "(- ?dr) / (?dc) \<le> (- (?dr + 1/2)) / (?dc + - (1/2))"
    using p by (intro frac_le_neg) (auto simp: algebra_simps diff_divide_distrib add_divide_distrib)
  then show "center_angle (cell_angles (vr, vc) row col) \<le> max_angle (cell_angles (vr, vc) row col)"
    unfolding mx ce by (simp only: arctan_le_iff add_le_cancel_right)
qed

lemma interval_W:
  assumes "row = vr" "col < vc"
  shows "min_angle (cell_angles (vr, vc) row col) \<le> center_angle (cell_angles (vr, vc) row col)"
    and "center_angle (cell_angles (vr, vc) row col) \<le> max_angle (cell_angles (vr, vc) row col)"
proof -
  let ?dr = "real_of_int (row - vr)" and ?dc = "real_of_int (col - vc)"
  have p: "?dr = 0" "?dc \<le> - 1" using assms by simp_all
  have mn: "min_angle (cell_angles (vr, vc) row col) = arctan ((- (?dr + - (1/2))) / (?dc + 1/2)) + pi"
  proof -
    have "min_angle (cell_angles (vr, vc) row col) = norm_angle (atan2 (- (?dr + - (1/2))) (?dc + 1/2))"
      by (simp add: cell_angles_fields[OF sector_W[OF assms]] extreme_cell_points_nth)
    also have "\<dots> = arctan ((- (?dr + - (1/2))) / (?dc + 1/2)) + pi"
      using p by (intro angle_left) simp_all
    finally show ?thesis .
  qed
  have ce: "center_angle (cell_angles (vr, vc) row col) = arctan ((- ?dr) / (?dc)) + pi"
  proof -
    have "center_angle (cell_angles (vr, vc) row col) = norm_angle (atan2 (- ?dr) (?dc))"
      by (simp add: cell_angles_fields[OF sector_W[OF assms]] extreme_cell_points_nth)
    also have "\<dots> = arctan ((- ?dr) / (?dc)) + pi"
      using p by (intro angle_left) simp_all
    finally show ?thesis .
  qed
  have mx: "max_angle (cell_angles (vr, vc) row col) = arctan ((- (?dr + 1/2)) / (?dc + 1/2)) + pi"
  proof -
    have "max_angle (cell_angles (vr, vc) row col) = norm_angle (atan2 (- (?dr + 1/2)) (?dc + 1/2))"
      by (simp add: cell_angles_fields[OF sector_W[OF assms]] extreme_cell_points_nth)
    also have "\<dots> = arctan ((- (?dr + 1/2)) / (?dc + 1/2)) + pi"
      using p by (intro angle_left) simp_all
    finally show ?thesis .
  qed
  have "(- (?dr + - (1/2))) / (?dc + 1/2) \<le> (- ?dr) / (?dc)"
    using p by (intro frac_le_neg) (auto simp: algebra_simps diff_divide_distrib add_divide_distrib)
  then show "min_angle (cell_angles (vr, vc) row col) \<le> center_angle (cell_angles (vr, vc) row col)"
    unfolding mn ce by (simp only: arctan_le_iff add_le_cancel_right)
  have "(- ?dr) / (?dc) \<le> (- (?dr + 1/2)) / (?dc + 1/2)"
    using p by (intro frac_le_neg) (auto simp: algebra_simps diff_divide_distrib add_divide_distrib)
  then show "center_angle (cell_angles (vr, vc) row col) \<le> max_angle (cell_angles (vr, vc) row col)"
    unfolding mx ce by (simp only: arctan_le_iff add_le_cancel_right)
qed

lemma interval_SW:
  assumes "vr < row" "col < vc"
  shows "min_angle (cell_angles (vr, vc) row col) \<le> center_angle (cell_angles (vr, vc) row col)"
    and "center_angle (cell_angles (vr, vc) row col) \<le> max_angle (cell_angles (vr, vc) row col)"
proof -
  let ?dr = "real_of_int (row - vr)" and ?dc = "real_of_int (col - vc)"
  have p: "1 \<le> ?dr" "?dc \<le> - 1" using assms by simp_all
  have mn: "min_angle (cell_angles (vr, vc) row col) = arctan ((- (?dr + - (1/2))) / (?dc + - (1/2))) + pi"
  proof -
    have "min_angle (cell_angles (vr, vc) row col) = norm_angle (atan2 (- (?dr + - (1/2))) (?dc + - (1/2)))"
      by (simp add: cell_angles_fields[OF sector_SW[OF assms]] extreme_cell_points_nth)
    also have "\<dots> = arctan ((- (?dr + - (1/2))) / (?dc + - (1/2))) + pi"
      using p by (intro angle_left) simp_all
    finally show ?thesis .
  qed
  have ce: "center_angle (cell_angles (vr, vc) row col) = arctan ((- ?dr) / (?dc)) + pi"
  proof -
    have "center_angle (cell_angles (vr, vc) row col) = norm_angle (atan2 (- ?dr) (?dc))"
      by (simp add: cell_angles_fields[OF sector_SW[OF assms]] extreme_cell_points_nth)
    also have "\<dots> = arctan ((- ?dr) / (?dc)) + pi"
      using p by (intro angle_left) simp_all
    finally show ?thesis .
  qed
  have mx: "max_angle (cell_angles (vr, vc) row col) = arctan ((- (?dr + 1/2)) / (?dc + 1/2)) + pi"
  proof -
    have "max_angle (cell_angles (vr, vc) row col) = norm_angle (atan2 (- (?dr + 1/2)) (?dc + 1/2))"
      by (simp add: cell_angles_fields[OF sector_SW[OF assms]] extreme_cell_points_nth)
    also have "\<dots> = arctan ((- (?dr + 1/2)) / (?dc + 1/2)) + pi"
      using p by (intro angle_left) simp_all
    finally show ?thesis .
  qed
  have "(- (?dr + - (1/2))) / (?dc + - (1/2)) \<le> (- ?dr) / (?dc)"
    using p by (intro frac_le_neg) (auto simp: algebra_simps diff_divide_distrib add_divide_distrib)
  then show "min_angle (cell_angles (vr, vc) row col) \<le> center_angle (cell_angles (vr, vc) row col)"
    unfolding mn ce by (simp only: arctan_le_iff add_le_cancel_right)
  have "(- ?dr) / (?dc) \<le> (- (?dr + 1/2)) / (?dc + 1/2)"
    using p by (intro frac_le_neg) (auto simp: algebra_simps diff_divide_distrib add_divide_distrib)
  then show "center_angle (cell_angles (vr, vc) row col) \<le> max_angle (cell_angles (vr, vc) row col)"
    unfolding mx ce by (simp only: arctan_le_iff add_le_cancel_right)
qed

lemma interval_S:
  assumes "vr < row" "col = vc"
  shows "min_angle (cell_angles (vr, vc) row col) \<le> center_angle (cell_angles (vr, vc) row col)"
    and "center_angle (cell_angles (vr, vc) row col) \<le> max_angle (cell_angles (vr, vc) row col)"
proof -
  let ?dr = "real_of_int (row - vr)" and ?dc = "real_of_int (col - vc)"
  have p: "1 \<le> ?dr" "?dc = 0" using assms by simp_all
  have mn: "min_angle (cell_angles (vr, vc) row col) = arctan ((- (?dr + - (1/2))) / (?dc + - (1/2))) + pi"
  proof -
    have "min_angle (cell_angles (vr, vc) row col) = norm_angle (atan2 (- (?dr + - (1/2))) (?dc + - (1/2)))"
      by (simp add: cell_angles_fields[OF sector_S[OF assms]] extreme_cell_points_nth)
    also have "\<dots> = arctan ((- (?dr + - (1/2))) / (?dc + - (1/2))) + pi"
      using p by (intro angle_left) simp_all
    finally show ?thesis .
  qed
  have ce: "center_angle (cell_angles (vr, vc) row col) = 3 * pi / 2"
  proof -
    have "center_angle (cell_angles (vr, vc) row col) = norm_angle (atan2 (- ?dr) (?dc))"
      by (simp add: cell_angles_fields[OF sector_S[OF assms]] extreme_cell_points_nth)
    also have "\<dots> = 3 * pi / 2"
      using p angle_down[of "- ?dr"] by simp
    finally show ?thesis .
  qed
  have mx: "max_angle (cell_angles (vr, vc) row col) = arctan ((- (?dr + - (1/2))) / (?dc + 1/2)) + 2 * pi"
  proof -
    have "max_angle (cell_angles (vr, vc) row col) = norm_angle (atan2 (- (?dr + - (1/2))) (?dc + 1/2))"
      by (simp add: cell_angles_fields[OF sector_S[OF assms]] extreme_cell_points_nth)
    also have "\<dots> = arctan ((- (?dr + - (1/2))) / (?dc + 1/2)) + 2 * pi"
      using p by (intro angle_right_down) simp_all
    finally show ?thesis .
  qed
  show "min_angle (cell_angles (vr, vc) row col) \<le> center_angle (cell_angles (vr, vc) row col)"
    unfolding mn ce using arctan_ubound[of "(- (?dr + - (1/2))) / (?dc + - (1/2))"] by linarith
  show "center_angle (cell_angles (vr, vc) row col) \<le> max_angle (cell_angles (vr, vc) row col)"
    unfolding mx ce using arctan_lbound[of "(- (?dr + - (1/2))) / (?dc + 1/2)"] by linarith
qed

lemma interval_SE:
  assumes "vr < row" "vc < col"
  shows "min_angle (cell_angles (vr, vc) row col) \<le> center_angle (cell_angles (vr, vc) row col)"
    and "center_angle (cell_angles (vr, vc) row col) \<le> max_angle (cell_angles (vr, vc) row col)"
proof -
  let ?dr = "real_of_int (row - vr)" and ?dc = "real_of_int (col - vc)"
  have p: "1 \<le> ?dr" "1 \<le> ?dc" using assms by simp_all
  have mn: "min_angle (cell_angles (vr, vc) row col) = arctan ((- (?dr + 1/2)) / (?dc + - (1/2))) + 2 * pi"
  proof -
    have "min_angle (cell_angles (vr, vc) row col) = norm_angle (atan2 (- (?dr + 1/2)) (?dc + - (1/2)))"
      by (simp add: cell_angles_fields[OF sector_SE[OF assms]] extreme_cell_points_nth)
    also have "\<dots> = arctan ((- (?dr + 1/2)) / (?dc + - (1/2))) + 2 * pi"
      using p by (intro angle_right_down) simp_all
    finally show ?thesis .
  qed
  have ce: "center_angle (cell_angles (vr, vc) row col) = arctan ((- ?dr) / (?dc)) + 2 * pi"
  proof -
    have "center_angle (cell_angles (vr, vc) row col) = norm_angle (atan2 (- ?dr) (?dc))"
      by (simp add: cell_angles_fields[OF sector_SE[OF assms]] extreme_cell_points_nth)
    also have "\<dots> = arctan ((- ?dr) / (?dc)) + 2 * pi"
      using p by (intro angle_right_down) simp_all
    finally show ?thesis .
  qed
  have mx: "max_angle (cell_angles (vr, vc) row col) = arctan ((- (?dr + - (1/2))) / (?dc + 1/2)) + 2 * pi"
  proof -
    have "max_angle (cell_angles (vr, vc) row col) = norm_angle (atan2 (- (?dr + - (1/2))) (?dc + 1/2))"
      by (simp add: cell_angles_fields[OF sector_SE[OF assms]] extreme_cell_points_nth)
    also have "\<dots> = arctan ((- (?dr + - (1/2))) / (?dc + 1/2)) + 2 * pi"
      using p by (intro angle_right_down) simp_all
    finally show ?thesis .
  qed
  have "(- (?dr + 1/2)) / (?dc + - (1/2)) \<le> (- ?dr) / (?dc)"
    using p by (intro frac_le_pos) (auto simp: algebra_simps diff_divide_distrib add_divide_distrib)
  then show "min_angle (cell_angles (vr, vc) row col) \<le> center_angle (cell_angles (vr, vc) row col)"
    unfolding mn ce by (simp only: arctan_le_iff add_le_cancel_right)
  have "(- ?dr) / (?dc) \<le> (- (?dr + - (1/2))) / (?dc + 1/2)"
    using p by (intro frac_le_pos) (auto simp: algebra_simps diff_divide_distrib add_divide_distrib)
  then show "center_angle (cell_angles (vr, vc) row col) \<le> max_angle (cell_angles (vr, vc) row col)"
    unfolding mx ce by (simp only: arctan_le_iff add_le_cancel_right)
qed

lemma cell_angles_in_arc:
  assumes "row \<noteq> vr \<or> col \<noteq> vc"
  shows "in_arc (min_angle (cell_angles (vr, vc) row col)) (max_angle (cell_angles (vr, vc) row col))
           (center_angle (cell_angles (vr, vc) row col))"
proof -
  consider (E) "row = vr" "vc < col" | (NE) "row < vr" "vc < col" | (N) "row < vr" "col = vc"
    | (NW) "row < vr" "col < vc" | (W) "row = vr" "col < vc" | (SW) "vr < row" "col < vc"
    | (S) "vr < row" "col = vc" | (SE) "vr < row" "vc < col"
    using assms by linarith
  then show ?thesis
  proof cases
    case E then show ?thesis using interval_E[OF E] by (simp add: in_arc_def)
  next
    case NE then show ?thesis using interval_NE[OF NE] by (simp add: in_arc_def)
  next
    case N then show ?thesis using interval_N[OF N] by (simp add: in_arc_def)
  next
    case NW then show ?thesis using interval_NW[OF NW] by (simp add: in_arc_def)
  next
    case W then show ?thesis using interval_W[OF W] by (simp add: in_arc_def)
  next
    case SW then show ?thesis using interval_SW[OF SW] by (simp add: in_arc_def)
  next
    case S then show ?thesis using interval_S[OF S] by (simp add: in_arc_def)
  next
    case SE then show ?thesis using interval_SE[OF SE] by (simp add: in_arc_def)
  qed
qed

lemma cell_records_mem:
  assumes "x \<in> set (cell_records shape vp md)"
  shows "\<exists>row col. x = cell_angles vp row col \<and> \<not> skip_cell vp md row col"
  using assms by (auto simp: cell_records_def split: if_splits)

text \<open>
  Claim C7: for every cell record the classifier produces, the interval from the minimum
  to the maximum angle, read as an arc that wraps across 0/2\<pi> when the minimum exceeds the
  maximum, contains the centre angle; without wrapping, \<open>minAngle \<le> centerAngle \<le> maxAngle\<close>.
  (Over the reals, with the exact \<open>\<pi>\<close> and arctangent.)
\<close>

theorem classifier_interval_contains_center:
  assumes "x \<in> set (cell_records (rows, cols) (vr, vc) max_dist)"
  shows "in_arc (min_angle x) (max_angle x) (center_angle x)
         \<and> (min_angle x \<le> max_angle x \<longrightarrow>
              min_angle x \<le> center_angle x \<and> center_angle x \<le> max_angle x)"
proof -
  obtain row col where x: "x = cell_angles (vr, vc) row col"
    and s: "\<not> skip_cell (vr, vc) max_dist row col"
    using cell_records_mem[OF assms] by blast
  from s have "row \<noteq> vr \<or> col \<noteq> vc" by (auto simp: skip_cell_def Let_def)
  then have "in_arc (min_angle x) (max_angle x) (center_angle x)"
    unfolding x by (rule cell_angles_in_arc)
  then show ?thesis by (simp add: in_arc_def split: if_splits)
qed

theorem classifier_interval_contains_center_witness:
  "cell_angles (0, 1) 0 0 \<in> set (cell_records (1, 2) (0, 1) (- 1))
   \<and> in_arc (min_angle (cell_angles (0, 1) 0 0)) (max_angle (cell_angles (0, 1) 0 0))
        (center_angle (cell_angles (0, 1) 0 0))"
proof -
  have m: "cell_angles (0, 1) 0 0 \<in> set (cell_records (1, 2) (0, 1) (- 1))"
    by (simp add: cell_records_def skip_cell_def max_dist_sq_def Let_def upto_rec1)
  from classifier_interval_contains_center[OF m] m show ?thesis by simp
qed

subsection \<open>The scan of the evaluator\<close>

lemma update_loop_done:
  "\<not> pixel_id < pixel_count \<Longrightarrow> update_loop arr I J pixel_count pixel_id st = Inr st"
  by (subst update_loop.simps) simp

lemma update_loop_gap:
  "pixel_id < pixel_count \<Longrightarrow> \<not> is_active (arr pixel_id)
   \<Longrightarrow> pixel_id - last_active_pixel st > 2
   \<Longrightarrow> update_loop arr I J pixel_count pixel_id st = Inr st"
  by (subst update_loop.simps) simp

lemma update_loop_skip:
  "pixel_id < pixel_count \<Longrightarrow> \<not> is_active (arr pixel_id)
   \<Longrightarrow> \<not> pixel_id - last_active_pixel st > 2
   \<Longrightarrow> update_loop arr I J pixel_count pixel_id st
       = update_loop arr I J pixel_count (pixel_id + 1) st"
  by (subst update_loop.simps) simp

lemma update_loop_visit:
  "pixel_id < pixel_count \<Longrightarrow> is_active (arr pixel_id)
   \<Longrightarrow> update_loop arr I J pixel_count pixel_id st
       = (case visit_active_pixel I J pixel_id (arr pixel_id) st of
            Inl e \<Rightarrow> Inl (e, vmap st)
          | Inr st' \<Rightarrow> update_loop arr I J pixel_count (pixel_id + 1) st')"
  by (subst update_loop.simps) simp

lemma scanned_slots_done:
  "\<not> pixel_id < pixel_count \<Longrightarrow> scanned_slots arr pixel_count pixel_id last_active = []"
  by (subst scanned_slots.simps) simp

lemma scanned_slots_gap:
  "pixel_id < pixel_count \<Longrightarrow> \<not> is_active (arr pixel_id) \<Longrightarrow> pixel_id - last_active > 2
   \<Longrightarrow> scanned_slots arr pixel_count pixel_id last_active = []"
  by (subst scanned_slots.simps) simp

lemma scanned_slots_skip:
  "pixel_id < pixel_count \<Longrightarrow> \<not> is_active (arr pixel_id) \<Longrightarrow> \<not> pixel_id - last_active > 2
   \<Longrightarrow> scanned_slots arr pixel_count pixel_id last_active
       = scanned_slots arr pixel_count (pixel_id + 1) last_active"
  by (subst scanned_slots.simps) simp

lemma scanned_slots_visit:
  "pixel_id < pixel_count \<Longrightarrow> is_active (arr pixel_id)
   \<Longrightarrow> scanned_slots arr pixel_count pixel_id last_active
       = pixel_id # scanned_slots arr pixel_count (pixel_id + 1) pixel_id"
  by (subst scanned_slots.simps) simp

lemma visit_as_stamp:
  "visit_active_pixel I J pixel_id p st =
     rbind (rbind (py_nth I (index p)) (\<lambda>r. rbind (py_nth J (index p)) (\<lambda>c.
              stamp_unseen (vmap st) r c (offset p - max_visibility st)))) (\<lambda>g.
     Inr \<lparr> max_visibility = max (max_visibility st) (visibility p),
           cur_visibility = offset p - max_visibility st, cur_index = index p,
           active_pixel_count = active_pixel_count st + 1,
           last_active_pixel = pixel_id, vmap = g \<rparr>)"
  by (auto simp: visit_active_pixel_def stamp_unseen_def rbind_def Let_def max_def split: sum.splits)

lemma scan_refines_from:
  "map_sum fst scan_outcome (update_loop arr I J pixel_count pixel_id st)
   = map_sum id (\<lambda>acc. (fst acc, snd acc, active_pixel_count st
          + int (length (scanned_slots arr pixel_count pixel_id (last_active_pixel st)))))
      (spec_scan arr I J (scanned_slots arr pixel_count pixel_id (last_active_pixel st))
        (max_visibility st, vmap st))"
proof (induction arr I J pixel_count pixel_id st rule: update_loop.induct)
  case (1 arr I J pixel_count pixel_id st)
  show ?case
  proof (cases "pixel_id < pixel_count")
    case False
    then show ?thesis
      by (simp add: update_loop_done scanned_slots_done scan_outcome_def)
  next
    case lt: True
    show ?thesis
    proof (cases "is_active (arr pixel_id)")
      case False
      show ?thesis
      proof (cases "pixel_id - last_active_pixel st > 2")
        case True
        with lt False show ?thesis
          by (simp add: update_loop_gap scanned_slots_gap scan_outcome_def)
      next
        case g: False
        with lt False "1.IH"(1) show ?thesis
          by (simp add: update_loop_skip scanned_slots_skip)
      qed
    next
      case act: True
      show ?thesis
      proof (cases "visit_active_pixel I J pixel_id (arr pixel_id) st")
        case (Inl e)
        then have "rbind (py_nth I (index (arr pixel_id))) (\<lambda>r.
              rbind (py_nth J (index (arr pixel_id))) (\<lambda>c.
              stamp_unseen (vmap st) r c (offset (arr pixel_id) - max_visibility st))) = Inl e"
          by (auto simp: visit_as_stamp rbind_def split: sum.splits)
        with lt act Inl show ?thesis
          by (simp add: update_loop_visit scanned_slots_visit)
      next
        case (Inr st')
        from Inr obtain g where g: "rbind (py_nth I (index (arr pixel_id))) (\<lambda>r.
              rbind (py_nth J (index (arr pixel_id))) (\<lambda>c.
              stamp_unseen (vmap st) r c (offset (arr pixel_id) - max_visibility st))) = Inr g"
          and st': "st' = \<lparr> max_visibility = max (max_visibility st) (visibility (arr pixel_id)),
           cur_visibility = offset (arr pixel_id) - max_visibility st, cur_index = index (arr pixel_id),
           active_pixel_count = active_pixel_count st + 1,
           last_active_pixel = pixel_id, vmap = g \<rparr>"
          by (auto simp: visit_as_stamp rbind_def split: sum.splits)
        have IH: "map_sum fst scan_outcome (update_loop arr I J pixel_count (pixel_id + 1) st')
          = map_sum id (\<lambda>acc. (fst acc, snd acc, active_pixel_count st'
              + int (length (scanned_slots arr pixel_count (pixel_id + 1) (last_active_pixel st')))))
            (spec_scan arr I J (scanned_slots arr pixel_count (pixel_id + 1) (last_active_pixel st'))
              (max_visibility st', vmap st'))"
          by (rule "1.IH"(2)[OF lt _ Inr]) (use act in simp)
        have "map_sum fst scan_outcome (update_loop arr I J pixel_count pixel_id st)
            = map_sum fst scan_outcome (update_loop arr I J pixel_count (pixel_id + 1) st')"
          using lt act Inr by (simp add: update_loop_visit)
        also note IH
        also have "map_sum id (\<lambda>acc. (fst acc, snd acc, active_pixel_count st'
              + int (length (scanned_slots arr pixel_count (pixel_id + 1) (last_active_pixel st')))))
            (spec_scan arr I J (scanned_slots arr pixel_count (pixel_id + 1) (last_active_pixel st'))
              (max_visibility st', vmap st'))
          = map_sum id (\<lambda>acc. (fst acc, snd acc, active_pixel_count st
          + int (length (scanned_slots arr pixel_count pixel_id (last_active_pixel st)))))
      (spec_scan arr I J (scanned_slots arr pixel_count pixel_id (last_active_pixel st))
        (max_visibility st, vmap st))"
          using lt act g by (simp add: scanned_slots_visit st' add.assoc)
        finally show ?thesis .
      qed
    qed
  qed
qed


subsection \<open>Reading and writing the grid\<close>

lemma py_index_Inr: "py_index n i = Inr k \<Longrightarrow> k < n"
  by (auto simp: py_index_def Let_def split: if_splits)

lemma grid_get_Inr:
  "grid_get g r c = Inr x \<longleftrightarrow>
     (\<exists>i j. py_index (length g) r = Inr i \<and> py_index (length (g ! i)) c = Inr j \<and> g ! i ! j = x)"
  by (auto simp: grid_get_def py_nth_def rbind_def split: sum.splits)

lemma grid_set_Inr:
  "grid_set g r c v = Inr g' \<longleftrightarrow>
     (\<exists>i j. py_index (length g) r = Inr i \<and> py_index (length (g ! i)) c = Inr j
            \<and> g' = g[i := (g ! i)[j := v]])"
  by (auto simp: grid_set_def py_set_def rbind_def split: sum.splits)

lemma grid_set_same: "grid_get g r c = Inr x \<Longrightarrow> grid_set g r c x = Inr g"
  by (auto simp: grid_get_Inr grid_set_Inr)

lemma grid_set_defined: "grid_get g r c = Inr x \<Longrightarrow> \<exists>g'. grid_set g r c v = Inr g'"
  by (auto simp: grid_get_Inr grid_set_Inr)

lemma grid_get_after_set:
  assumes "grid_set g r c v = Inr g'"
  shows "grid_get g' r c = Inr v"
proof -
  from assms obtain i j where s: "py_index (length g) r = Inr i"
    "py_index (length (g ! i)) c = Inr j" "g' = g[i := (g ! i)[j := v]]"
    by (auto simp: grid_set_Inr)
  have "i < length g" "j < length (g ! i)" using s(1,2) by (auto dest: py_index_Inr)
  then show ?thesis using s by (auto simp: grid_get_Inr)
qed

text \<open>A write at one position leaves every entry that holds another value.\<close>

lemma grid_set_other:
  assumes "grid_set g r c v = Inr g'" "grid_get g r c = Inr old" "grid_get g r' c' = Inr x"
    "x \<noteq> old"
  shows "grid_get g' r' c' = Inr x"
proof -
  from assms(1) obtain i j where s: "py_index (length g) r = Inr i"
    "py_index (length (g ! i)) c = Inr j" "g' = g[i := (g ! i)[j := v]]"
    by (auto simp: grid_set_Inr)
  from assms(2) s have old: "g ! i ! j = old" by (auto simp: grid_get_Inr)
  from assms(3) obtain i' j' where t: "py_index (length g) r' = Inr i'"
    "py_index (length (g ! i')) c' = Inr j'" "g ! i' ! j' = x"
    by (auto simp: grid_get_Inr)
  have "i' < length g" using t(1) by (rule py_index_Inr)
  have ne: "i' \<noteq> i \<or> j' \<noteq> j" using old t(3) assms(4) by auto
  have len: "length (g' ! i') = length (g ! i')"
    unfolding s(3) using \<open>i' < length g\<close> by (cases "i' = i") auto
  have "g' ! i' ! j' = x"
    unfolding s(3) using \<open>i' < length g\<close> ne t(3) by (cases "i' = i") auto
  then show ?thesis using t(1,2) len s(3) by (auto simp: grid_get_Inr)
qed

subsection \<open>Stamping\<close>

lemma stamp_unseen_seen:
  "grid_get g r c = Inr x \<Longrightarrow> x \<noteq> 0 \<Longrightarrow> stamp_unseen g r c v = Inr g"
  by (simp add: stamp_unseen_def)

lemma stamp_unseen_zero: "grid_get g r c = Inr 0 \<Longrightarrow> stamp_unseen g r c 0 = Inr g"
  by (simp add: stamp_unseen_def grid_set_same)

lemma stamp_unseen_writes:
  "grid_get g r c = Inr 0 \<Longrightarrow> \<exists>g'. stamp_unseen g r c v = Inr g' \<and> grid_get g' r c = Inr v"
  using grid_set_defined[of g r c 0 v] by (auto simp: stamp_unseen_def grid_get_after_set)

lemma stamp_unseen_keeps:
  assumes "stamp_unseen g r c v = Inr g'" "grid_get g r' c' = Inr x" "x \<noteq> 0"
  shows "grid_get g' r' c' = Inr x"
proof -
  from assms(1) obtain old where old: "grid_get g r c = Inr old"
    by (auto simp: stamp_unseen_def rbind_def split: sum.splits)
  show ?thesis
  proof (cases "old = 0")
    case True
    with assms(1) old have "grid_set g r c v = Inr g'" by (simp add: stamp_unseen_def)
    from grid_set_other[OF this old assms(2)] True assms(3) show ?thesis by simp
  next
    case False
    with assms(1) old have "g' = g" by (simp add: stamp_unseen_def)
    with assms(2) show ?thesis by simp
  qed
qed

lemma spec_scan_keeps:
  assumes "spec_scan arr I J ks (m, g) = Inr (m', g')" "grid_get g r c = Inr x" "x \<noteq> 0"
  shows "grid_get g' r c = Inr x"
  using assms
proof (induction ks arbitrary: m g)
  case Nil
  then show ?case by simp
next
  case (Cons k ks)
  from Cons.prems(1) obtain g1 where g1:
    "rbind (py_nth I (index (arr k))) (\<lambda>r.
       rbind (py_nth J (index (arr k))) (\<lambda>c.
       stamp_unseen g r c (offset (arr k) - m))) = Inr g1"
    and rest: "spec_scan arr I J ks (max m (visibility (arr k)), g1) = Inr (m', g')"
    by (auto split: sum.splits)
  from g1 obtain r1 c1 where "stamp_unseen g r1 c1 (offset (arr k) - m) = Inr g1"
    by (auto simp: rbind_def split: sum.splits)
  from stamp_unseen_keeps[OF this Cons.prems(2,3)] have "grid_get g1 r c = Inr x" .
  from Cons.IH[OF rest this Cons.prems(3)] show ?case .
qed

lemma update_loop_outcome:
  assumes "update_loop arr I J pixel_count pixel_id st = Inr st'"
  shows "spec_scan arr I J (scanned_slots arr pixel_count pixel_id (last_active_pixel st))
           (max_visibility st, vmap st) = Inr (max_visibility st', vmap st')"
    and "active_pixel_count st' = active_pixel_count st
           + int (length (scanned_slots arr pixel_count pixel_id (last_active_pixel st)))"
proof -
  let ?ks = "scanned_slots arr pixel_count pixel_id (last_active_pixel st)"
  from scan_refines_from[of arr I J pixel_count pixel_id st] assms
  have e: "map_sum id (\<lambda>acc. (fst acc, snd acc, active_pixel_count st + int (length ?ks)))
             (spec_scan arr I J ?ks (max_visibility st, vmap st)) = Inr (scan_outcome st')"
    by simp
  then show "spec_scan arr I J ?ks (max_visibility st, vmap st)
               = Inr (max_visibility st', vmap st')"
    by (cases "spec_scan arr I J ?ks (max_visibility st, vmap st)")
      (auto simp: scan_outcome_def)
  from e show "active_pixel_count st' = active_pixel_count st + int (length ?ks)"
    by (cases "spec_scan arr I J ?ks (max_visibility st, vmap st)")
      (auto simp: scan_outcome_def)
qed

lemma update_loop_defined:
  assumes "spec_scan arr I J (scanned_slots arr pixel_count pixel_id (last_active_pixel st))
             (max_visibility st, vmap st) = Inr (mv, g)"
  shows "\<exists>st'. update_loop arr I J pixel_count pixel_id st = Inr st'
           \<and> scan_outcome st' = (mv, g, active_pixel_count st
                + int (length (scanned_slots arr pixel_count pixel_id (last_active_pixel st))))"
  using scan_refines_from[of arr I J pixel_count pixel_id st] assms
  by (cases "update_loop arr I J pixel_count pixel_id st") auto

lemma update_loop_keeps:
  assumes "update_loop arr I J pixel_count pixel_id st = Inr st'"
    "grid_get (vmap st) r c = Inr x" "x \<noteq> 0"
  shows "grid_get (vmap st') r c = Inr x"
  using spec_scan_keeps[OF update_loop_outcome(1)[OF assms(1)] assms(2,3)] .

subsection \<open>The statement after the scan\<close>

lemma debug_write_one:
  "debug_write I J a st = Inr m \<Longrightarrow> \<exists>i j. m = (vmap st)[i := (vmap st ! i)[j := of_int a]]"
  by (auto simp: debug_write_def rbind_def grid_set_Inr split: sum.splits)

lemma evaluator_cases:
  assumes "update_loop arr I J pixel_count 0 (scan_start vm0) = Inr st"
  shows "update_visible_pixels_fast arr I J pixel_count vm0 a
           = (case debug_write I J a st of
                Inl e \<Rightarrow> (vmap st, 0)
              | Inr m \<Rightarrow> (m, active_pixel_count st))"
  using assms by (simp add: update_visible_pixels_fast_def)

subsection \<open>Passes over a line of three cells\<close>

lemmas scan_eval = update_loop.simps scan_start_def visit_active_pixel_def grid_get_def
  grid_set_def py_nth_def py_set_def py_index_def new_pixel_def blank_def Let_def

lemmas pass_eval = update_visible_pixels_fast_def debug_write_def rbind_def scan_eval

lemma pass_abc:
  "update_loop line_abc [0, 0, 0] [0, 1, 2] 4 0 (scan_start [[0, 0, 0]])
     = Inr \<lparr> max_visibility = 0, cur_visibility = 0, cur_index = 2, active_pixel_count = 3,
             last_active_pixel = 2, vmap = [[1000000, 0, 0]] \<rparr>"
  by (simp add: scan_eval line_abc_def)

lemma pass_bc:
  "update_loop line_bc [0, 0, 0] [0, 1, 2] 4 0 (scan_start [[1000000, 0, 1]])
     = Inr \<lparr> max_visibility = 0, cur_visibility = 0, cur_index = 2, active_pixel_count = 2,
             last_active_pixel = 2, vmap = [[1000000, 1000000, 1]] \<rparr>"
  by (simp add: scan_eval line_bc_def)

lemma visit_b_first:
  "visit_active_pixel [0, 0, 0] [0, 1, 2] 1 (line_abc 1)
       \<lparr> max_visibility = 0, cur_visibility = 1000000, cur_index = 0, active_pixel_count = 1,
         last_active_pixel = 0, vmap = [[1000000, 0, 0]] \<rparr>
     = Inr \<lparr> max_visibility = 0, cur_visibility = 0, cur_index = 1, active_pixel_count = 2,
             last_active_pixel = 1, vmap = [[1000000, 0, 0]] \<rparr>"
  by (simp add: scan_eval line_abc_def)

lemma whole_abc:
  "update_visible_pixels_fast line_abc [0, 0, 0] [0, 1, 2] 4 [[0, 0, 0]] 1
     = ([[1000000, 0, 1]], 3)"
  by (simp add: pass_eval line_abc_def)

lemma whole_bc:
  "update_visible_pixels_fast line_bc [0, 0, 0] [0, 1, 2] 4 [[1000000, 0, 1]] 2
     = ([[1000000, 1000000, 2]], 2)"
  by (simp add: pass_eval line_bc_def)

lemma scanned_abc: "scanned_slots line_abc 4 0 1 = [0, 1, 2]"
  by (simp add: scanned_slots.simps line_abc_def blank_def new_pixel_def)

lemma scanned_bc: "scanned_slots line_bc 4 0 1 = [1, 2]"
  by (simp add: scanned_slots.simps line_bc_def blank_def new_pixel_def)

lemma spec_bc:
  "spec_scan line_bc [0, 0, 0] [0, 1, 2] [1, 2] (- 1000000, [[1000000, 0, 1]])
     = Inr (0, [[1000000, 1000000, 1]])"
  by (simp add: stamp_unseen_def rbind_def grid_get_def grid_set_def py_nth_def py_set_def
      py_index_def line_bc_def new_pixel_def blank_def Let_def)

text \<open>
  Claim C5, as stated, ends with "first write wins per cell per full sweep". That does not
  hold for a first write of the value 0. On the line with the flat cells \<open>(0,0)\<close>, \<open>(0,1)\<close>,
  \<open>(0,2)\<close> in slots 0, 1, 2 the scan of the first pass stamps 1000000 at \<open>(0,0)\<close> and computes
  0 for the cell \<open>(0,1)\<close> in slot 1: its entry is written with 0. In the next pass, with
  slot 0 no longer active, the same cell comes first and its entry is written again, with
  1000000. The two passes of the evaluator as a whole show the same.
\<close>

theorem first_write_counterexample:
  "update_loop line_abc [0, 0, 0] [0, 1, 2] 4 0 (scan_start [[0, 0, 0]])
     = Inr \<lparr> max_visibility = 0, cur_visibility = 0, cur_index = 2, active_pixel_count = 3,
             last_active_pixel = 2, vmap = [[1000000, 0, 0]] \<rparr>
   \<and> visit_active_pixel [0, 0, 0] [0, 1, 2] 1 (line_abc 1)
       \<lparr> max_visibility = 0, cur_visibility = 1000000, cur_index = 0, active_pixel_count = 1,
         last_active_pixel = 0, vmap = [[1000000, 0, 0]] \<rparr>
     = Inr \<lparr> max_visibility = 0, cur_visibility = 0, cur_index = 1, active_pixel_count = 2,
             last_active_pixel = 1, vmap = [[1000000, 0, 0]] \<rparr>
   \<and> update_visible_pixels_fast line_abc [0, 0, 0] [0, 1, 2] 4 [[0, 0, 0]] 1
     = ([[1000000, 0, 1]], 3)
   \<and> update_visible_pixels_fast line_bc [0, 0, 0] [0, 1, 2] 4 [[1000000, 0, 1]] 2
     = ([[1000000, 1000000, 2]], 2)"
  using pass_abc visit_b_first whole_abc whole_bc by simp

text \<open>
  Claim C5, amended: in a pass of the evaluator over slots whose cell indices lie within the
  arrays, the scan (the loop of the function) is the fold, over the active slots it visits
  in index order, that computes for each slot its offset minus the running maximum so far
  (starting from -1000000), stamps that value at the cell of the slot only when the position
  still holds the unseen sentinel zero, and updates the running maximum with the visibility
  field of the slot; the count is the number of slots visited. The scan keeps every entry
  that is not zero, so that among its writes the first that is not zero wins, while an
  entry written with a computed 0 stays unseen. The grid the evaluator returns is the grid
  of the scan but for one entry at most: the one that the statement after the loop, marked
  as a debugging aid in the source, overwrites.
\<close>

theorem evaluator_pass:
  assumes "spec_scan arr I J (scanned_slots arr pixel_count 0 1) (- 1000000, vm0) = Inr (mv, g)"
  shows "(\<exists>st. update_loop arr I J pixel_count 0 (scan_start vm0) = Inr st
            \<and> scan_outcome st = (mv, g, int (length (scanned_slots arr pixel_count 0 1)))
            \<and> update_visible_pixels_fast arr I J pixel_count vm0 a
                = (case debug_write I J a st of
                     Inl e \<Rightarrow> (g, 0)
                   | Inr m \<Rightarrow> (m, int (length (scanned_slots arr pixel_count 0 1)))))
       \<and> (\<forall>r c x. grid_get vm0 r c = Inr x \<and> x \<noteq> 0 \<longrightarrow> grid_get g r c = Inr x)
       \<and> (\<exists>i j v. fst (update_visible_pixels_fast arr I J pixel_count vm0 a)
                     = g[i := (g ! i)[j := v]])"
proof -
  have s: "spec_scan arr I J
             (scanned_slots arr pixel_count 0 (last_active_pixel (scan_start vm0)))
             (max_visibility (scan_start vm0), vmap (scan_start vm0)) = Inr (mv, g)"
    using assms by (simp add: scan_start_def)
  from update_loop_defined[OF s] obtain st
    where st: "update_loop arr I J pixel_count 0 (scan_start vm0) = Inr st"
      and out: "scan_outcome st = (mv, g, int (length (scanned_slots arr pixel_count 0 1)))"
    by (auto simp: scan_start_def)
  have v: "vmap st = g" "active_pixel_count st = int (length (scanned_slots arr pixel_count 0 1))"
    using out by (simp_all add: scan_outcome_def)
  have w: "update_visible_pixels_fast arr I J pixel_count vm0 a
             = (case debug_write I J a st of
                  Inl e \<Rightarrow> (g, 0)
                | Inr m \<Rightarrow> (m, int (length (scanned_slots arr pixel_count 0 1))))"
    unfolding evaluator_cases[OF st] v by (rule refl)
  have k: "\<forall>r c x. grid_get vm0 r c = Inr x \<and> x \<noteq> 0 \<longrightarrow> grid_get g r c = Inr x"
    using spec_scan_keeps[OF assms] by blast
  have d: "\<exists>i j v. fst (update_visible_pixels_fast arr I J pixel_count vm0 a)
                     = g[i := (g ! i)[j := v]]"
  proof (cases "debug_write I J a st")
    case (Inl e)
    then have "fst (update_visible_pixels_fast arr I J pixel_count vm0 a) = g" using w by simp
    moreover have "g[length g := (g ! length g)[0 := 0]] = g" by (rule list_update_beyond) simp
    ultimately have "fst (update_visible_pixels_fast arr I J pixel_count vm0 a)
        = g[length g := (g ! length g)[0 := 0]]" by simp
    then show ?thesis by blast
  next
    case (Inr m)
    from debug_write_one[OF this] v(1) obtain i j where "m = g[i := (g ! i)[j := of_int a]]"
      by auto
    moreover have "fst (update_visible_pixels_fast arr I J pixel_count vm0 a) = m"
      using w Inr by simp
    ultimately show ?thesis by blast
  qed
  from st out w k d show ?thesis by blast
qed

theorem evaluator_pass_witness:
  "spec_scan line_bc [0, 0, 0] [0, 1, 2] (scanned_slots line_bc 4 0 1)
       (- 1000000, [[1000000, 0, 1]]) = Inr (0, [[1000000, 1000000, 1]])
   \<and> update_loop line_bc [0, 0, 0] [0, 1, 2] 4 0 (scan_start [[1000000, 0, 1]])
     = Inr \<lparr> max_visibility = 0, cur_visibility = 0, cur_index = 2, active_pixel_count = 2,
             last_active_pixel = 2, vmap = [[1000000, 1000000, 1]] \<rparr>
   \<and> grid_get [[1000000, 0, 1]] 0 0 = Inr 1000000 \<and> (1000000::real) \<noteq> 0
   \<and> grid_get [[1000000, 1000000, 1]] 0 0 = Inr 1000000
   \<and> update_visible_pixels_fast line_bc [0, 0, 0] [0, 1, 2] 4 [[1000000, 0, 1]] 2
     = ([[1000000, 1000000, 2]], 2)
   \<and> (\<exists>i j v. [[1000000, 1000000, 2 :: real]]
         = [[1000000, 1000000, 1]][i := ([[1000000, 1000000, 1]] ! i)[j := v]])"
proof -
  have h: "spec_scan line_bc [0, 0, 0] [0, 1, 2] (scanned_slots line_bc 4 0 1)
       (- 1000000, [[1000000, 0, 1]]) = Inr (0, [[1000000, 1000000, 1]])"
    using spec_bc scanned_bc by simp
  note t = evaluator_pass[OF h, of 2]
  have g: "grid_get [[1000000, 0, 1]] 0 0 = Inr 1000000"
    by (simp add: grid_get_def py_nth_def py_index_def rbind_def)
  have k: "grid_get [[1000000, 1000000, 1]] 0 0 = Inr 1000000"
    using conjunct1[OF conjunct2[OF t], rule_format, of 0 0 1000000] g by simp
  have d: "\<exists>i j v. [[1000000, 1000000, 2 :: real]]
         = [[1000000, 1000000, 1]][i := ([[1000000, 1000000, 1]] ! i)[j := v]]"
    using conjunct2[OF conjunct2[OF t]] whole_bc by simp
  from h pass_bc g k whole_bc d show ?thesis by simp
qed

text \<open>
  Claim C10 says that the evaluator writes to an entry of the grid only when the entry is
  exactly 0, and that the entry of a cell whose computed visibility is 0 stays 0. The scan
  does so; the statement after it, \<^verbatim>\<open>visibility_map[I[index], J[index]] = a\<close>, marked
  \<^verbatim>\<open>Debug purposes only!!!!\<close> in the source, does not: it writes the step counter at the
  cell of the last slot visited, whatever the entry holds. On the line with the cells
  \<open>(0,1)\<close> and \<open>(0,2)\<close> in slots 1 and 2 and the grid \<open>[[0, 0, 5]]\<close>, the pass with step
  counter 7 replaces the entry 5 of the cell \<open>(0,2)\<close> by 7. On the line with the three cells
  and the grid \<open>[[0, 0, 0]]\<close>, the scan computes 0 for the cell \<open>(0,2)\<close> and leaves its entry
  at 0; the pass with step counter 1 returns the grid with 1 there.
\<close>

theorem debug_write_overwrites:
  "update_visible_pixels_fast line_bc [0, 0, 0] [0, 1, 2] 4 [[0, 0, 5]] 7
     = ([[0, 1000000, 7]], 2)
   \<and> update_loop line_abc [0, 0, 0] [0, 1, 2] 4 0 (scan_start [[0, 0, 0]])
     = Inr \<lparr> max_visibility = 0, cur_visibility = 0, cur_index = 2, active_pixel_count = 3,
             last_active_pixel = 2, vmap = [[1000000, 0, 0]] \<rparr>
   \<and> update_visible_pixels_fast line_abc [0, 0, 0] [0, 1, 2] 4 [[0, 0, 0]] 1
     = ([[1000000, 0, 1]], 3)"
proof (intro conjI)
  show "update_visible_pixels_fast line_bc [0, 0, 0] [0, 1, 2] 4 [[0, 0, 5]] 7
     = ([[0, 1000000, 7]], 2)"
    by (simp add: pass_eval line_bc_def)
  show "update_loop line_abc [0, 0, 0] [0, 1, 2] 4 0 (scan_start [[0, 0, 0]])
     = Inr \<lparr> max_visibility = 0, cur_visibility = 0, cur_index = 2, active_pixel_count = 3,
             last_active_pixel = 2, vmap = [[1000000, 0, 0]] \<rparr>"
    by (rule pass_abc)
  show "update_visible_pixels_fast line_abc [0, 0, 0] [0, 1, 2] 4 [[0, 0, 0]] 1
     = ([[1000000, 0, 1]], 3)"
    by (rule whole_abc)
qed

subsection \<open>The sweep on the concrete inputs\<close>

lemma flat_3x3_fields:
  "viewpoint flat_3x3 = [1, 1]"
  "perimeter flat_3x3 = [[1, 0, 0, 0, 1, 2, 2, 2], [2, 2, 1, 0, 0, 0, 1, 2]]"
  "angles flat_3x3 = [0, 0.7853981633974483, 1.5707963267948966, 2.356194490192344, 3.141592653589793, 3.9269908169872414, 4.71238898038469, 5.497787143782138, 6.283185307179586]"
  "add_events flat_3x3 = [1.8925468811915387, 0.7853981633974483, 0.32175055439664213, 2.356194490192344, 5.497787143782138, 3.4633432079864352, 3.9269908169872414, 5.034139534781332]"
  "center_events flat_3x3 = [2.356194490192344, 1.5707963267948966, 0.7853981633974483, 3.141592653589793, 0, 3.9269908169872414, 4.71238898038469, 5.497787143782138]"
  "remove_events flat_3x3 = [2.819842099193151, 2.356194490192344, 1.2490457723982544, 3.9269908169872414, 0.7853981633974483, 4.3906384259880475, 5.497787143782138, 5.961434752782944]"
  "arg_min flat_3x3 = [2, 1, 0, 3, 5, 6, 7, 4]"
  "arg_center flat_3x3 = [4, 2, 1, 0, 3, 5, 6, 7]"
  "arg_max flat_3x3 = [4, 2, 1, 0, 3, 5, 6, 7]"
  "coord flat_3x3 = [[0, 0, 0, 1, 1, 2, 2, 2], [0, 1, 2, 0, 2, 0, 1, 2]]"
  "distances flat_3x3 = [1.4142135623730951, 1, 1.4142135623730951, 1, 1, 1.4142135623730951, 1, 1.4142135623730951]"
  "offset_visibility flat_3x3 = [0, 0, 0, 0, 0, 0, 0, 0]"
  "cell_visibility flat_3x3 = [0, 0, 0, 0, 0, 0, 0, 0]"
  "visibility_map flat_3x3 = [[0, 0, 0], [0, 0, 0], [0, 0, 0]]"
  by (simp_all add: flat_3x3_def)

lemma flat_5x5_fields:
  "viewpoint flat_5x5 = [2, 2]"
  "perimeter flat_5x5 = [[2, 1, 0, 0, 0, 0, 0, 1, 2, 3, 4, 4, 4, 4, 4, 3], [4, 4, 4, 3, 2, 1, 0, 0, 0, 0, 0, 1, 2, 3, 4, 4]]"
  "angles flat_5x5 = [0, 0.46364760900080615, 0.7853981633974483, 1.1071487177940904, 1.5707963267948966, 2.0344439357957036, 2.356194490192344, 2.677945044588988, 3.141592653589793, 3.6052402625905993, 3.9269908169872414, 4.2487413713838835, 4.71238898038469, 5.176036589385496, 5.497787143782138, 5.81953769817878, 6.283185307179586]"
  "add_events flat_5x5 = [2.1112158270654806, 1.768191886644777, 1.2490457723982544, 0.7853981633974483, 0.540419500270584, 2.356194490192344, 1.8925468811915387, 0.7853981633974483, 0.32175055439664213, 0.19739555984988044, 2.819842099193151, 2.356194490192344, 5.497787143782138, 5.961434752782944, 3.3389882134396736, 3.4633432079864352, 3.9269908169872414, 5.034139534781332, 5.497787143782138, 3.682012153860377, 3.9269908169872414, 4.3906384259880475, 4.90978454023457, 5.252808480655274]"
  "center_events flat_5x5 = [2.356194490192344, 2.0344439357957036, 1.5707963267948966, 1.1071487177940904, 0.7853981633974483, 2.677945044588988, 2.356194490192344, 1.5707963267948966, 0.7853981633974483, 0.46364760900080615, 3.141592653589793, 3.141592653589793, 0, 0, 3.6052402625905993, 3.9269908169872414, 4.71238898038469, 5.497787143782138, 5.81953769817878, 3.9269908169872414, 4.2487413713838835, 4.71238898038469, 5.176036589385496, 5.497787143782138]"
  "remove_events flat_5x5 = [2.601173153319209, 2.356194490192344, 1.8925468811915387, 1.3734007669450161, 1.0303768265243125, 2.9441970937399127, 2.819842099193151, 2.356194490192344, 1.2490457723982544, 0.7853981633974483, 3.4633432079864352, 3.9269908169872414, 0.7853981633974483, 0.32175055439664213, 3.9269908169872414, 4.3906384259880475, 5.497787143782138, 5.961434752782944, 6.085789747329706, 4.171969480114106, 4.514993420534809, 5.034139534781332, 5.497787143782138, 5.742765806909002]"
  "arg_min flat_5x5 = [9, 8, 4, 3, 7, 2, 1, 6, 0, 5, 11, 10, 14, 15, 19, 16, 20, 21, 22, 17, 23, 12, 18, 13]"
  "arg_center flat_5x5 = [12, 13, 9, 4, 8, 3, 2, 7, 1, 0, 6, 5, 10, 11, 14, 15, 19, 20, 16, 21, 22, 17, 23, 18]"
  "arg_max flat_5x5 = [13, 9, 12, 4, 8, 3, 2, 1, 7, 0, 6, 5, 10, 11, 14, 19, 15, 20, 21, 16, 22, 23, 17, 18]"
  "coord flat_5x5 = [[0, 0, 0, 0, 0, 1, 1, 1, 1, 1, 2, 2, 2, 2, 3, 3, 3, 3, 3, 4, 4, 4, 4, 4], [0, 1, 2, 3, 4, 0, 1, 2, 3, 4, 0, 1, 3, 4, 0, 1, 2, 3, 4, 0, 1, 2, 3, 4]]"
  "distances flat_5x5 = [2.8284271247461903, 2.23606797749979, 2, 2.23606797749979, 2.8284271247461903, 2.23606797749979, 1.4142135623730951, 1, 1.4142135623730951, 2.23606797749979, 2, 1, 1, 2, 2.23606797749979, 1.4142135623730951, 1, 1.4142135623730951, 2.23606797749979, 2.8284271247461903, 2.23606797749979, 2, 2.23606797749979, 2.8284271247461903]"
  "offset_visibility flat_5x5 = [0, 0, 0, 0, 0, 0, 0, 0, 0, 0, 0, 0, 0, 0, 0, 0, 0, 0, 0, 0, 0, 0, 0, 0]"
  "cell_visibility flat_5x5 = [0, 0, 0, 0, 0, 0, 0, 0, 0, 0, 0, 0, 0, 0, 0, 0, 0, 0, 0, 0, 0, 0, 0, 0]"
  "visibility_map flat_5x5 = [[0, 0, 0, 0, 0], [0, 0, 0, 0, 0], [0, 0, 0, 0, 0], [0, 0, 0, 0, 0], [0, 0, 0, 0, 0]]"
  by (simp_all add: flat_5x5_def)

lemma wide_3x5_fields:
  "viewpoint wide_3x5 = [1, 1]"
  "perimeter wide_3x5 = [[1, 0, 0, 0, 0, 0, 1, 2, 2, 2, 2, 2], [4, 4, 3, 2, 1, 0, 0, 0, 1, 2, 3, 4]]"
  "angles wide_3x5 = [0, 0.32175055439664213, 0.46364760900080615, 0.7853981633974483, 1.5707963267948966, 2.356194490192344, 3.141592653589793, 3.9269908169872414, 4.71238898038469, 5.497787143782138, 5.81953769817878, 5.961434752782944, 6.283185307179586]"
  "add_events wide_3x5 = [1.8925468811915387, 0.7853981633974483, 0.32175055439664213, 0.19739555984988044, 0.14189705460416402, 2.356194490192344, 5.497787143782138, 5.961434752782944, 6.085789747329706, 3.4633432079864352, 3.9269908169872414, 5.034139534781332, 5.497787143782138, 5.742765806909002]"
  "center_events wide_3x5 = [2.356194490192344, 1.5707963267948966, 0.7853981633974483, 0.46364760900080615, 0.32175055439664213, 3.141592653589793, 0, 0, 0, 3.9269908169872414, 4.71238898038469, 5.497787143782138, 5.81953769817878, 5.961434752782944]"
  "remove_events wide_3x5 = [2.819842099193151, 2.356194490192344, 1.2490457723982544, 0.7853981633974483, 0.540419500270584, 3.9269908169872414, 0.7853981633974483, 0.32175055439664213, 0.19739555984988044, 4.3906384259880475, 5.497787143782138, 5.961434752782944, 6.085789747329706, 6.141288252575422]"
  "arg_min wide_3x5 = [4, 3, 2, 1, 0, 5, 9, 10, 11, 6, 12, 13, 7, 8]"
  "arg_center wide_3x5 = [6, 7, 8, 4, 3, 2, 1, 0, 5, 9, 10, 11, 12, 13]"
  "arg_max wide_3x5 = [8, 7, 4, 3, 6, 2, 1, 0, 5, 9, 10, 11, 12, 13]"
  "coord wide_3x5 = [[0, 0, 0, 0, 0, 1, 1, 1, 1, 2, 2, 2, 2, 2], [0, 1, 2, 3, 4, 0, 2, 3, 4, 0, 1, 2, 3, 4]]"
  "distances wide_3x5 = [1.4142135623730951, 1, 1.4142135623730951, 2.23606797749979, 3.1622776601683795, 1, 1, 2, 3, 1.4142135623730951, 1, 1.4142135623730951, 2.23606797749979, 3.1622776601683795]"
  "offset_visibility wide_3x5 = [0, 0, 0, 0, 0, 0, 0, 0, 0, 0, 0, 0, 0, 0]"
  "cell_visibility wide_3x5 = [0, 0, 0, 0, 0, 0, 0, 0, 0, 0, 0, 0, 0, 0]"
  "visibility_map wide_3x5 = [[0, 0, 0, 0, 0], [0, 0, 0, 0, 0], [0, 0, 0, 0, 0]]"
  by (simp_all add: wide_3x5_def)


lemma flat_3x3_again_fields:
  "arg_min flat_3x3_again = [0, 0, 0, 0, 0, 0, 0, 4]"
  "arg_max flat_3x3_again = [0, 0, 0, 0, 0, 0, 0, 7]"
  "viewpoint flat_3x3_again = viewpoint flat_3x3"
  "perimeter flat_3x3_again = perimeter flat_3x3"
  "angles flat_3x3_again = angles flat_3x3"
  "add_events flat_3x3_again = add_events flat_3x3"
  "center_events flat_3x3_again = center_events flat_3x3"
  "remove_events flat_3x3_again = remove_events flat_3x3"
  "arg_center flat_3x3_again = arg_center flat_3x3"
  "coord flat_3x3_again = coord flat_3x3"
  "distances flat_3x3_again = distances flat_3x3"
  "offset_visibility flat_3x3_again = offset_visibility flat_3x3"
  "cell_visibility flat_3x3_again = cell_visibility flat_3x3"
  "visibility_map flat_3x3_again = visibility_map flat_3x3"
  by (simp_all add: flat_3x3_again_def)


lemma rbind_cong_weak: "m = m' \<Longrightarrow> rbind m f = rbind m' f"
  by simp

text \<open>The rounding of a double is unfolded on numerals only.\<close>

lemmas fl_eval = fl_def[of "numeral a / numeral b" for a b]
  fl_def[of "- (numeral a / numeral b)" for a b] fl_def[of "numeral a" for a]
  fl_def[of "- numeral a" for a] fl_def[of 0] fl_def[of 1] fl_def[of "- 1"]
  fl_def[of "1 / numeral b" for b] fl_def[of "- (1 / numeral b)" for b]

lemmas double_eval = d_add_def d_sub_def d_mul_def d_div_def d_of_int_def fl_eval ulp_def
  expo_def round_half_even_def bit_length_0 bit_length_numeral c_int_def rounded_term_def
  active_pixel_index_def

lemmas sweep_eval = sweep_through_angles_def sweep_prime_def prime_phase_def step_phase_def
  sweep_step_def check_counts_def line_at_def long_axis_def perimeter_at_def slot_of_def
  double_eval c_div_def alternate_def sign_def new_pixel_def
  center_pending_def activate_center_def remove_pending_def deactivate_def add_pending_def
  activate_def update_visible_pixels_fast_def debug_write_def scan_start_def
  visit_active_pixel_def grid_get_def grid_set_def py_nth_def py_set_def py_index_def
  max_line_length_def angle_count_def deactivate_all_def Let_def
  prime_loop.simps update_loop.simps remove_loop.simps add_loop.simps sweep_loop.simps
  prime_counts_def step_counts_def

lemma run_3x3:
  "sweep_through_angles mem flat_3x3 =
     Inr \<lparr> visibility_map_out = [[3, 2, 1], [4, 0, 1], [5, 6, 7]],
           arg_min_out = [0, 0, 0, 0, 0, 0, 0, 4],
           arg_max_out = [0, 0, 0, 0, 0, 0, 0, 7] \<rparr>"
  by (simp add: sweep_eval flat_3x3_fields cong: rbind_cong_weak)

lemma rerun_3x3: "sweep_through_angles mem flat_3x3_again = Inl AssertionError"
  by (simp add: sweep_eval flat_3x3_fields flat_3x3_again_fields cong: rbind_cong_weak)

lemma rerun_3x3_counts: "step_counts mem flat_3x3_again 2 = Inr (1, 7, 0, 2)"
  by (simp add: sweep_eval flat_3x3_fields flat_3x3_again_fields cong: rbind_cong_weak)

lemma prime_3x5_counts: "prime_counts mem wide_3x5 = Inr (0, 3, 0, 2)"
  by (simp add: sweep_eval wide_3x5_fields cong: rbind_cong_weak)

lemma prime_3x5_slot:
  "(case prime_phase mem wide_3x5 of
      Inr (st, counted, added) \<Rightarrow>
        is_active (st_active_pixel_array st 6) \<and> index (st_active_pixel_array st 6) = 8
    | Inl e \<Rightarrow> False)"
  by (simp add: sweep_eval wide_3x5_fields cong: rbind_cong_weak)

lemma run_3x5: "sweep_through_angles mem wide_3x5 = Inl AssertionError"
  by (simp add: sweep_eval wide_3x5_fields cong: rbind_cong_weak)

lemma counts_3x3: "prime_counts mem flat_3x3 = Inr (0, 1, 0, 1)"
  "step_counts mem flat_3x3 0 = Inr (1, 1, 1, 1)"
  by (simp_all add: sweep_eval flat_3x3_fields cong: rbind_cong_weak)

lemma angle_counts: "angle_count flat_3x3 = 9" "angle_count flat_3x3_again = 9"
  "angle_count wide_3x5 = 13" "angle_count flat_5x5 = 17"
  by (simp_all add: angle_count_def flat_3x3_fields flat_3x3_again_fields wide_3x5_fields
      flat_5x5_fields)

lemma rerun_3x3_map: "sweep_through_angles mem flat_3x3_again_map = Inl AssertionError"
  by (simp add: sweep_eval flat_3x3_fields flat_3x3_again_fields flat_3x3_again_map_def
      cong: rbind_cong_weak)

lemma run_5x5:
  "sweep_through_angles mem flat_5x5 =
     Inr \<lparr> visibility_map_out =
             [[6, 5, 4, 3, 2],
              [7, 1000000, 1000000, 1000000, 1],
              [8, 1000000, 0, 1000000, 1],
              [9, 1000000, 1000000, 1000000, 15],
              [10, 11, 12, 13, 14]],
           arg_min_out =
             [0, 0, 0, 0, 0, 0, 0, 0, 0, 0, 0, 0, 0, 0, 0, 0, 0, 0, 0, 0, 0, 0, 0, 13],
           arg_max_out =
             [0, 0, 0, 0, 0, 0, 0, 0, 0, 0, 0, 0, 0, 0, 0, 0, 0, 0, 0, 0, 0, 0, 17, 18] \<rparr>"
  by (simp add: sweep_eval flat_5x5_fields cong: rbind_cong_weak)


text \<open>
  Claim C2, as stated: on the flat 5\<times>5 grid with the viewpoint at \<open>(2,2)\<close> every cell other
  than the viewpoint holds 0 after the sweep. The sweep returns a grid in which no such cell
  holds 0: the eight cells around the viewpoint hold 1000000, stamped when they were the
  first slot of a pass, and the sixteen cells of the border hold the step counters 1 to 15
  of the write marked as a debugging aid.
\<close>

theorem flat_5x5_counterexample:
  "sweep_through_angles blank flat_5x5 =
     Inr \<lparr> visibility_map_out =
             [[6, 5, 4, 3, 2],
              [7, 1000000, 1000000, 1000000, 1],
              [8, 1000000, 0, 1000000, 1],
              [9, 1000000, 1000000, 1000000, 15],
              [10, 11, 12, 13, 14]],
           arg_min_out =
             [0, 0, 0, 0, 0, 0, 0, 0, 0, 0, 0, 0, 0, 0, 0, 0, 0, 0, 0, 0, 0, 0, 0, 13],
           arg_max_out =
             [0, 0, 0, 0, 0, 0, 0, 0, 0, 0, 0, 0, 0, 0, 0, 0, 0, 0, 0, 0, 0, 0, 17, 18] \<rparr>"
  by (rule run_5x5)

text \<open>
  Claim C2, amended: for the flat 5\<times>5 grid with the viewpoint at \<open>(2,2)\<close> and offset 0
  everywhere, after one full sweep each of the eight cells adjacent to the viewpoint holds
  1000000, the visibility that the evaluator computes for the first cell of a line of
  sight (its offset 0 minus the initial running maximum -1000000), the cell of the viewpoint
  holds 0, and no cell of the grid holds a negative value. This holds whatever the
  allocated block of the active line contains at the start.
\<close>

theorem flat_5x5_sweep:
  "\<exists>out. sweep_through_angles mem flat_5x5 = Inr out
     \<and> grid_get (visibility_map_out out) 1 1 = Inr 1000000
     \<and> grid_get (visibility_map_out out) 1 2 = Inr 1000000
     \<and> grid_get (visibility_map_out out) 1 3 = Inr 1000000
     \<and> grid_get (visibility_map_out out) 2 1 = Inr 1000000
     \<and> grid_get (visibility_map_out out) 2 3 = Inr 1000000
     \<and> grid_get (visibility_map_out out) 3 1 = Inr 1000000
     \<and> grid_get (visibility_map_out out) 3 2 = Inr 1000000
     \<and> grid_get (visibility_map_out out) 3 3 = Inr 1000000
     \<and> grid_get (visibility_map_out out) 2 2 = Inr 0
     \<and> list_all (list_all (\<lambda>v. 0 \<le> v)) (visibility_map_out out)"
  unfolding run_5x5 by (simp add: grid_get_def py_nth_def py_index_def rbind_def)

text \<open>
  Claim C1 says that at every step of the sweep, the priming step included, the count of the
  evaluator equals the previous count plus the cells added minus the cells removed. The
  source asserts this equality at the end of every step, and breaks it on the 3\<times>5 grid with
  the viewpoint at \<open>(1,1)\<close>: the priming step adds the three cells east of the viewpoint, in
  the slots 2, 4 and 6, but the block of the active line has the six slots 0 to 5, the
  evaluator scans those and counts two cells. The assertion of the priming step fails and
  the sweep ends with \<^verbatim>\<open>AssertionError\<close>.
\<close>

theorem count_assertion_violated:
  "prime_counts blank wide_3x5 = Inr (0, 3, 0, 2)
   \<and> sweep_through_angles blank wide_3x5 = Inl AssertionError"
  using prime_3x5_counts[of blank] run_3x5[of blank] by simp

text \<open>
  Claim C4 says that the active slot array has room for twice \<^verbatim>\<open>max_line_length\<close> slots and
  that no activation writes out of bounds; the comment at the allocation says the same
  ("an array that can contain twice the pixels"), and the add phase asserts
  \<^verbatim>\<open>ID>=0 and ID<max_line_length\<close>. The block allocated has \<^verbatim>\<open>max_line_length\<close> slots, and
  the priming loop, where the same assertion is commented out, writes past it: on the 3\<times>5
  grid with the viewpoint at \<open>(1,1)\<close> the block has 6 slots and the cell \<open>(1,4)\<close>, of index
  8, is stored in slot 6.
\<close>

theorem priming_overflows_block:
  "active_line_capacity wide_3x5 = 6
   \<and> (case prime_phase blank wide_3x5 of
         Inr (st, counted, added) \<Rightarrow>
           added = 3 \<and> is_active (st_active_pixel_array st 6)
           \<and> index (st_active_pixel_array st 6) = 8
       | Inl e \<Rightarrow> False)
   \<and> \<not> is_active (deactivate_all blank (active_line_capacity wide_3x5) 6)"
proof (intro conjI)
  show c: "active_line_capacity wide_3x5 = 6"
    by (simp add: active_line_capacity_def max_line_length_def angle_counts)
  show "case prime_phase blank wide_3x5 of
         Inr (st, counted, added) \<Rightarrow>
           added = 3 \<and> is_active (st_active_pixel_array st 6)
           \<and> index (st_active_pixel_array st 6) = 8
       | Inl e \<Rightarrow> False"
    using prime_3x5_slot[of blank] prime_3x5_counts[of blank]
    by (auto simp: prime_counts_def rbind_def split: sum.splits prod.splits)
  show "\<not> is_active (deactivate_all blank (active_line_capacity wide_3x5) 6)"
    unfolding c by (simp add: deactivate_all_def blank_def)
qed


end
